theory Spec2Isabelle
  imports Complex_Main
begin

section \<open>Strings of the CSV parser\<close>

text \<open>
  A JavaScript string is modelled as a \<open>string\<close>, one \<open>char\<close> per code unit; the model
  covers the code units below 256. The characters the parser names:
\<close>

definition apostrophe :: char where
  "apostrophe = CHR 0x27"

definition dquote :: char where
  "dquote = CHR 0x22"

definition comma :: char where
  "comma = CHR '',''"

definition newline_char :: char where
  "newline_char = CHR 0x0A"

text \<open>The class \<open>\d\<close> of a regular expression without the unicode flag: \<open>0\<close> to \<open>9\<close>.\<close>

definition is_digit :: "char \<Rightarrow> bool" where
  "is_digit c = (c \<in> set ''0123456789'')"

text \<open>
  \<open>String.prototype.trim\<close> strips WhiteSpace and LineTerminator code units from both ends.
  Below 256 these are TAB, LF, VT, FF, CR, SPACE and NBSP.
\<close>

definition is_space :: "char \<Rightarrow> bool" where
  "is_space c = (c \<in> set [CHR 0x09, CHR 0x0A, CHR 0x0B, CHR 0x0C, CHR 0x0D, CHR 0x20, CHR 0xA0])"

definition trim :: "string \<Rightarrow> string" where
  "trim s = rev (dropWhile is_space (rev (dropWhile is_space s)))"

section \<open>sanitizeValue (csv-parser.ts)\<close>

text \<open>\<open>/^[=@]/.test(value)\<close>\<close>

definition starts_formula :: "string \<Rightarrow> bool" where
  "starts_formula v = (case v of [] \<Rightarrow> False | c # _ \<Rightarrow> c = CHR ''='' \<or> c = CHR ''@'')"

text \<open>\<open>/^[+-]/.test(value)\<close>\<close>

definition starts_sign :: "string \<Rightarrow> bool" where
  "starts_sign v = (case v of [] \<Rightarrow> False | c # _ \<Rightarrow> c = CHR ''+'' \<or> c = CHR ''-'')"

text \<open>\<open>/^[\t\r]/.test(value)\<close>\<close>

definition starts_control :: "string \<Rightarrow> bool" where
  "starts_control v = (case v of [] \<Rightarrow> False | c # _ \<Rightarrow> c = CHR 0x09 \<or> c = CHR 0x0D)"

text \<open>The optional sign \<open>[+-]?\<close> at the start of a match.\<close>

definition strip_sign :: "string \<Rightarrow> string" where
  "strip_sign v = (if starts_sign v then tl v else v)"

text \<open>
  \<open>/^[+-]?\d+\.?\d*$/.test(value)\<close>, the test of the source: an optional sign, one or more
  digits, an optional point, any number of digits, the end of the string.
\<close>

definition valid_number :: "string \<Rightarrow> bool" where
  "valid_number v =
     (let r = strip_sign v; ds = takeWhile is_digit r; rest = dropWhile is_digit r
      in ds \<noteq> [] \<and>
         (case rest of
            [] \<Rightarrow> True
          | c # fs \<Rightarrow> c = CHR ''.'' \<and> dropWhile is_digit fs = []))"

definition sanitizeValue :: "string \<Rightarrow> string" where
  "sanitizeValue v =
     (if starts_formula v then apostrophe # v
      else if starts_sign v \<and> \<not> valid_number v then apostrophe # v
      else if starts_control v then apostrophe # v
      else v)"

text \<open>
  The expression of the specification, \<open>^[+-]?\d+(\.\d+)?$\<close>: an optional sign, one or
  more digits, and optionally a point followed by one or more digits.
\<close>

definition spec_signed_decimal :: "string \<Rightarrow> bool" where
  "spec_signed_decimal v =
     (let r = strip_sign v; ds = takeWhile is_digit r; rest = dropWhile is_digit r
      in ds \<noteq> [] \<and>
         (case rest of
            [] \<Rightarrow> True
          | c # fs \<Rightarrow> c = CHR ''.'' \<and> fs \<noteq> [] \<and> dropWhile is_digit fs = []))"

section \<open>parseCSVLine and parseCSVStream (csv-parser.ts)\<close>

text \<open>
  The loop of \<open>parseCSVLine\<close> over the code units of the line, with its variables
  \<open>current\<close>, \<open>inQuotes\<close> and \<open>result\<close>. A quote inside quotes that is followed by a second
  quote appends one quote and skips both; \<open>line[i + 1]\<close> past the end is \<open>undefined\<close>.
\<close>

fun parseCSVLine_loop :: "string \<Rightarrow> string \<Rightarrow> bool \<Rightarrow> string list \<Rightarrow> string list" where
  "parseCSVLine_loop [] current inQuotes result = result @ [trim current]"
| "parseCSVLine_loop (c # cs) current inQuotes result =
     (if c = dquote then
        (case cs of
           [] \<Rightarrow> parseCSVLine_loop [] current (\<not> inQuotes) result
         | d # ds \<Rightarrow>
             if inQuotes \<and> d = dquote
             then parseCSVLine_loop ds (current @ [dquote]) inQuotes result
             else parseCSVLine_loop (d # ds) current (\<not> inQuotes) result)
      else if c = comma \<and> \<not> inQuotes
        then parseCSVLine_loop cs [] inQuotes (result @ [trim current])
      else parseCSVLine_loop cs (current @ [c]) inQuotes result)"

definition parseCSVLine :: "string \<Rightarrow> string list" where
  "parseCSVLine line = parseCSVLine_loop line [] False []"

text \<open>\<open>csv.split("\n")\<close>: the pieces between line feeds, at least one piece.\<close>

fun split_newline :: "string \<Rightarrow> string list" where
  "split_newline [] = [[]]"
| "split_newline (c # cs) =
     (if c = newline_char then [] # split_newline cs
      else (case split_newline cs of
              [] \<Rightarrow> [[c]]
            | l # ls \<Rightarrow> (c # l) # ls))"

text \<open>
  A row is the object built by \<open>row[headers[j]] = sanitizeValue(values[j] ?? "")\<close> for
  \<open>j\<close> from 0 to \<open>headers.length - 1\<close>: a later column of the same name overwrites an
  earlier one, and a missing value is the empty string. The object is modelled as the map
  from its own property names to their values.
\<close>

type_synonym CsvRow = "string \<rightharpoonup> string"

definition value_at :: "string list \<Rightarrow> nat \<Rightarrow> string" where
  "value_at vals j = (if j < length vals then vals ! j else [])"

text \<open>
  \<open>row[key] = value\<close> with a string value, on an object made by \<open>{}\<close>: the property is
  stored, except under the key \<open>__proto__\<close>, where the assignment goes to the setter of the
  prototype, which ignores a string.
\<close>

definition assign :: "CsvRow \<Rightarrow> string \<Rightarrow> string \<Rightarrow> CsvRow" where
  "assign row key v = (if key = ''__proto__'' then row else row(key \<mapsto> v))"

definition make_row :: "string list \<Rightarrow> string list \<Rightarrow> CsvRow" where
  "make_row headers vals =
     foldl (\<lambda>row j. assign row (headers ! j) (sanitizeValue (value_at vals j)))
       Map.empty [0..<length headers]"

text \<open>
  The generator \<open>parseCSVStream\<close>, as the list of the rows it yields in order: the first
  line gives the headers, every further line is trimmed and skipped when empty.
\<close>

definition parseCSVStream :: "string \<Rightarrow> CsvRow list" where
  "parseCSVStream csv =
     (case split_newline csv of
        [] \<Rightarrow> []
      | first # rest \<Rightarrow>
          map (\<lambda>line. make_row (parseCSVLine first) (parseCSVLine line))
            (filter (\<lambda>line. line \<noteq> []) (map trim rest)))"

section \<open>Numbers\<close>

text \<open>
  The arithmetic of the platform is a parameter of the model: a record of the operations
  on numbers that the source uses, over any type of numbers. What is proved for every such
  record holds for the binary64 numbers of the platform, with their rounding, overflow and
  underflow.
\<close>

record 'n number_ops =
  op_parseFloat :: "string \<Rightarrow> 'n"
  op_isNaN :: "'n \<Rightarrow> bool"
  op_abs :: "'n \<Rightarrow> 'n"
  op_gt0 :: "'n \<Rightarrow> bool"
  op_add :: "'n \<Rightarrow> 'n \<Rightarrow> 'n"
  op_sub :: "'n \<Rightarrow> 'n \<Rightarrow> 'n"
  op_zero :: 'n

text \<open>
  \<open>op_gt0 x\<close> is \<open>x > 0\<close> and \<open>op_zero\<close> is the literal \<open>0\<close>; the others carry the name of
  the operation.
\<close>

section \<open>aggregateCashflow (csv-parser.ts)\<close>

record 'n Cashflow =
  totalInflow :: 'n
  totalOutflow :: 'n
  transactionCount :: nat

text \<open>\<open>row.NAME || "0"\<close>: a missing column and an empty cell both read as \<open>"0"\<close>.\<close>

definition cell_or_zero :: "CsvRow \<Rightarrow> string \<Rightarrow> string" where
  "cell_or_zero row name =
     (case row name of None \<Rightarrow> ''0'' | Some v \<Rightarrow> if v = [] then ''0'' else v)"

text \<open>The body of the loop over the rows.\<close>

definition aggregate_row :: "'n number_ops \<Rightarrow> 'n Cashflow \<Rightarrow> CsvRow \<Rightarrow> 'n Cashflow" where
  "aggregate_row ops acc row =
     (let credit = op_parseFloat ops (cell_or_zero row ''NET_CREDIT_AMOUNT'');
          debitRaw = op_parseFloat ops (cell_or_zero row ''NET_DEBIT_AMOUNT'');
          debit = op_abs ops debitRaw
      in \<lparr> totalInflow =
             (if \<not> op_isNaN ops credit \<and> op_gt0 ops credit
              then op_add ops (totalInflow acc) credit
              else totalInflow acc),
           totalOutflow =
             (if \<not> op_isNaN ops debit \<and> op_gt0 ops debit
              then op_add ops (totalOutflow acc) debit
              else totalOutflow acc),
           transactionCount = transactionCount acc + 1 \<rparr>)"

definition aggregateCashflow :: "'n number_ops \<Rightarrow> string \<Rightarrow> 'n Cashflow" where
  "aggregateCashflow ops csv =
     foldl (aggregate_row ops)
       \<lparr> totalInflow = op_zero ops, totalOutflow = op_zero ops, transactionCount = 0 \<rparr>
       (parseCSVStream csv)"







section \<open>Decimal numbers for the examples\<close>

text \<open>
  The values of a number are NaN, the infinities and the finite numbers, written here as
  rationals. On them stands one record of operations with exact arithmetic, used in the
  examples only. It gives the results of binary64 where every literal and every sum is an
  integer below \<open>2^53\<close> in magnitude, as in the examples; on other amounts binary64
  rounds, overflows or underflows and this record does not.
\<close>

datatype jsnum = NaN | Fin rat | PosInf | NegInf

fun exact_isNaN :: "jsnum \<Rightarrow> bool" where
  "exact_isNaN NaN = True"
| "exact_isNaN _ = False"

fun exact_abs :: "jsnum \<Rightarrow> jsnum" where
  "exact_abs NaN = NaN"
| "exact_abs (Fin r) = Fin \<bar>r\<bar>"
| "exact_abs PosInf = PosInf"
| "exact_abs NegInf = PosInf"

fun exact_gt0 :: "jsnum \<Rightarrow> bool" where
  "exact_gt0 NaN = False"
| "exact_gt0 (Fin r) = (0 < r)"
| "exact_gt0 PosInf = True"
| "exact_gt0 NegInf = False"

fun exact_add :: "jsnum \<Rightarrow> jsnum \<Rightarrow> jsnum" where
  "exact_add NaN _ = NaN"
| "exact_add _ NaN = NaN"
| "exact_add (Fin a) (Fin b) = Fin (a + b)"
| "exact_add (Fin a) PosInf = PosInf"
| "exact_add (Fin a) NegInf = NegInf"
| "exact_add PosInf (Fin b) = PosInf"
| "exact_add NegInf (Fin b) = NegInf"
| "exact_add PosInf PosInf = PosInf"
| "exact_add NegInf NegInf = NegInf"
| "exact_add PosInf NegInf = NaN"
| "exact_add NegInf PosInf = NaN"

fun exact_neg :: "jsnum \<Rightarrow> jsnum" where
  "exact_neg NaN = NaN"
| "exact_neg (Fin r) = Fin (- r)"
| "exact_neg PosInf = NegInf"
| "exact_neg NegInf = PosInf"

definition exact_sub :: "jsnum \<Rightarrow> jsnum \<Rightarrow> jsnum" where
  "exact_sub a b = exact_add a (exact_neg b)"

text \<open>The value of a string of decimal digits.\<close>

definition digit_val :: "char \<Rightarrow> nat" where
  "digit_val c = of_char c - 48"

definition digits_val :: "string \<Rightarrow> nat" where
  "digits_val ds = foldl (\<lambda>n c. 10 * n + digit_val c) 0 ds"

text \<open>
  The exponent part of a decimal literal: \<open>e\<close> or \<open>E\<close>, an optional sign and at least one
  digit; anything else is not part of the literal and the exponent is 0.
\<close>

definition exponent_part :: "string \<Rightarrow> int" where
  "exponent_part r =
     (case r of
        [] \<Rightarrow> 0
      | c # r' \<Rightarrow>
          if c = CHR ''e'' \<or> c = CHR ''E'' then
            (let ds = takeWhile is_digit (strip_sign r') in
             if ds = [] then 0
             else if starts_sign r' \<and> hd r' = CHR ''-'' then - int (digits_val ds)
             else int (digits_val ds))
          else 0)"

definition scale10 :: "rat \<Rightarrow> int \<Rightarrow> rat" where
  "scale10 m e = (if 0 \<le> e then m * 10 ^ nat e else m / 10 ^ nat (- e))"

text \<open>
  The exact value of the literal that \<open>parseFloat\<close> reads: leading white space is skipped,
  then the longest prefix that is a decimal literal is taken (a sign, then \<open>Infinity\<close> or
  digits with an optional point, fraction and exponent); when there is none the result is
  NaN.
\<close>

definition exact_parseFloat :: "string \<Rightarrow> jsnum" where
  "exact_parseFloat s =
     (let t = dropWhile is_space s;
          neg = (starts_sign t \<and> hd t = CHR ''-'');
          u = strip_sign t
      in if take 8 u = ''Infinity'' then (if neg then NegInf else PosInf)
         else
           (let ip = takeWhile is_digit u;
                r1 = dropWhile is_digit u;
                has_point = (case r1 of [] \<Rightarrow> False | c # _ \<Rightarrow> c = CHR ''.'');
                fp = (if has_point then takeWhile is_digit (tl r1) else []);
                r2 = (if has_point then dropWhile is_digit (tl r1) else r1)
            in if ip = [] \<and> fp = [] then NaN
               else
                 (let m = of_nat (digits_val ip) + of_nat (digits_val fp) / 10 ^ length fp;
                      v = scale10 m (exponent_part r2)
                  in Fin (if neg then - v else v))))"

definition exact_ops :: "jsnum number_ops" where
  "exact_ops =
     \<lparr> op_parseFloat = exact_parseFloat, op_isNaN = exact_isNaN, op_abs = exact_abs,
       op_gt0 = exact_gt0, op_add = exact_add, op_sub = exact_sub, op_zero = Fin 0 \<rparr>"

section \<open>The network and fetch\<close>

text \<open>
  What the network does with one request: it answers after some milliseconds with a
  status and a body, it fails after some milliseconds, or it never answers. Of the headers
  of an answer the model keeps \<open>Number(res.headers.get("Retry-After"))\<close>, which is 0 when
  the header is absent and NaN when it is not a number.
\<close>

record http_response =
  status :: nat
  retry_after :: jsnum
  body :: string

datatype net_outcome = Replies nat http_response | Fails nat | NeverReplies

text \<open>
  The values thrown in the clients: the \<open>AbortError\<close> of an aborted fetch, the
  \<open>TypeError\<close> of a failed one, \<open>MercadoPagoApiError\<close> and \<open>MercadoLivreApiError\<close> with
  their status and \<open>retryAfter\<close>, what \<open>res.json()\<close> throws on a body that is not JSON,
  and what \<open>schema.parse\<close> throws on JSON of another shape. The message texts are left
  out.
\<close>

datatype js_error =
    AbortError
  | NetworkError
  | MercadoPagoApiError nat "jsnum option"
  | MercadoLivreApiError nat "jsnum option"
  | JsonSyntaxError
  | ZodError

text \<open>
  \<open>fetch\<close> of the platform, with the abort signal of the request when it has one: a
  signal that fires after \<open>t\<close> milliseconds rejects the fetch with \<open>AbortError\<close> unless
  the network was done before. Without a signal the fetch settles when the network does,
  and not at all (\<open>None\<close>) when the network never answers.
\<close>

definition fetch :: "nat option \<Rightarrow> net_outcome \<Rightarrow> (js_error + http_response) option" where
  "fetch signal net =
     (case signal of
        None \<Rightarrow>
          (case net of
             Replies ms res \<Rightarrow> Some (Inr res)
           | Fails ms \<Rightarrow> Some (Inl NetworkError)
           | NeverReplies \<Rightarrow> None)
      | Some t \<Rightarrow>
          (case net of
             Replies ms res \<Rightarrow> if ms < t then Some (Inr res) else Some (Inl AbortError)
           | Fails ms \<Rightarrow> if ms < t then Some (Inl NetworkError) else Some (Inl AbortError)
           | NeverReplies \<Rightarrow> Some (Inl AbortError)))"

text \<open>\<open>res.ok\<close>\<close>

definition ok :: "http_response \<Rightarrow> bool" where
  "ok res = (200 \<le> status res \<and> status res \<le> 299)"

section \<open>The MercadoPago client\<close>

text \<open>
  \<open>fetchMercadoPagoRaw\<close>: the request has headers only and no signal; status 404 and
  every other status that is not ok throw \<open>MercadoPagoApiError\<close> with that status.
\<close>

definition fetchMercadoPagoRaw :: "net_outcome \<Rightarrow> (js_error + string) option" where
  "fetchMercadoPagoRaw net =
     (case fetch None net of
        None \<Rightarrow> None
      | Some (Inl err) \<Rightarrow> Some (Inl err)
      | Some (Inr res) \<Rightarrow>
          if \<not> ok res then
            (if status res = 404 then Some (Inl (MercadoPagoApiError 404 None))
             else Some (Inl (MercadoPagoApiError (status res) None)))
          else Some (Inr (body res)))"

section \<open>The cashflow tool: generate, then poll\<close>

text \<open>\<open>/^\d{4}-\d{2}-\d{2}$/.test(s)\<close>\<close>

definition DATE_REGEX :: "string \<Rightarrow> bool" where
  "DATE_REGEX s =
     (case s of
        [y1, y2, y3, y4, h1, m1, m2, h2, d1, d2] \<Rightarrow>
          is_digit y1 \<and> is_digit y2 \<and> is_digit y3 \<and> is_digit y4 \<and> h1 = CHR ''-''
          \<and> is_digit m1 \<and> is_digit m2 \<and> h2 = CHR ''-'' \<and> is_digit d1 \<and> is_digit d2
      | _ \<Rightarrow> False)"

definition maxAttempts :: nat where
  "maxAttempts = 12"

text \<open>\<open>error instanceof MercadoPagoApiError && error.status === 404\<close>\<close>

definition not_ready :: "js_error \<Rightarrow> bool" where
  "not_ready err = (case err of MercadoPagoApiError st _ \<Rightarrow> st = 404 | _ \<Rightarrow> False)"

text \<open>
  The polling loop. \<open>net k\<close> is what the network does with the request of attempt \<open>k\<close>;
  the second component of the result lists the delays the loop has waited, in order.
\<close>

datatype 'n poll_end = Aggregated "'n Cashflow" | Exhausted | Thrown js_error | Hangs

function poll ::
  "'n number_ops \<Rightarrow> (nat \<Rightarrow> net_outcome) \<Rightarrow> nat \<Rightarrow> rat \<Rightarrow> rat list
   \<Rightarrow> 'n poll_end \<times> rat list" where
  "poll ops net attempt delay waited =
     (if attempt < maxAttempts then
        (case fetchMercadoPagoRaw (net attempt) of
           None \<Rightarrow> (Hangs, waited @ [delay])
         | Some (Inr csv) \<Rightarrow> (Aggregated (aggregateCashflow ops csv), waited @ [delay])
         | Some (Inl err) \<Rightarrow>
             if not_ready err
             then poll ops net (attempt + 1) (min (delay * (3 / 2)) 30000) (waited @ [delay])
             else (Thrown err, waited @ [delay]))
      else (Exhausted, waited))"
  by pat_completeness auto
termination
  by (relation "measure (\<lambda>(ops, net, attempt, delay, waited). maxAttempts - attempt)") auto

text \<open>
  The results of \<open>execute\<close>, by their \<open>structuredContent\<close>: the invalid-date error, the
  cashflow output, the timeout status with the report id, and \<open>toAgentError()\<close> of a
  \<open>MercadoPagoApiError\<close> with its status and \<open>recoverable\<close> flag.
\<close>

record 'n cashflow_output =
  start_date :: string
  end_date :: string
  total_inflow :: 'n
  total_outflow :: 'n
  net_change :: 'n
  transaction_count :: nat

datatype 'n tool_result =
    InvalidDateFormat
  | CashflowOutput "'n cashflow_output"
  | TimeoutStatus string
  | AgentError nat bool

text \<open>The outer \<open>catch\<close>: a \<open>MercadoPagoApiError\<close> becomes a result, anything else is rethrown.\<close>

definition catch_api_error :: "js_error \<Rightarrow> js_error + 'n tool_result" where
  "catch_api_error err =
     (case err of
        MercadoPagoApiError st ra \<Rightarrow> Inr (AgentError st (st = 429 \<or> 500 \<le> st))
      | _ \<Rightarrow> Inl err)"

text \<open>
  \<open>execute\<close> of the cashflow tool. \<open>generated\<close> is how the call of \<open>fetchMercadoPago\<close> that
  triggers the report ends: never (\<open>None\<close>), with a thrown value, or with the
  \<open>file_name\<close> of the report. The result is \<open>None\<close> when \<open>execute\<close> never returns, \<open>Inl\<close>
  when it throws.
\<close>

definition execute ::
  "'n number_ops \<Rightarrow> string \<Rightarrow> string \<Rightarrow> (js_error + string) option
   \<Rightarrow> (nat \<Rightarrow> net_outcome) \<Rightarrow> (js_error + 'n tool_result) option \<times> rat list" where
  "execute ops start_d end_d generated net =
     (if \<not> DATE_REGEX start_d \<or> \<not> DATE_REGEX end_d then (Some (Inr InvalidDateFormat), [])
      else
        (case generated of
           None \<Rightarrow> (None, [])
         | Some (Inl err) \<Rightarrow> (Some (catch_api_error err), [])
         | Some (Inr file_name) \<Rightarrow>
             (case poll ops net 0 5000 [] of
                (Aggregated c, waited) \<Rightarrow>
                  (Some (Inr (CashflowOutput
                     \<lparr> start_date = start_d, end_date = end_d,
                       total_inflow = totalInflow c, total_outflow = totalOutflow c,
                       net_change = op_sub ops (totalInflow c) (totalOutflow c),
                       transaction_count = transactionCount c \<rparr>)), waited)
              | (Exhausted, waited) \<Rightarrow> (Some (Inr (TimeoutStatus file_name)), waited)
              | (Thrown err, waited) \<Rightarrow> (Some (catch_api_error err), waited)
              | (Hangs, waited) \<Rightarrow> (None, waited))))"

text \<open>
  The schedule the specification names: 5 seconds at first, multiplied by 1.5 for each
  answer "not ready" before, at most 30 seconds.
\<close>

definition spec_delay :: "nat \<Rightarrow> rat" where
  "spec_delay k = min (5000 * (3 / 2) ^ k) 30000"

text \<open>An answer with HTTP status 404.\<close>

definition http_404 :: "net_outcome \<Rightarrow> bool" where
  "http_404 n = (case n of Replies ms res \<Rightarrow> status res = 404 | _ \<Rightarrow> False)"

text \<open>
  Two networks for the polling loop: one that answers every request with 404, and one
  that answers the first two requests with 404 and every later one with 500.
\<close>

definition never_ready :: "nat \<Rightarrow> net_outcome" where
  "never_ready k = Replies 150 \<lparr> status = 404, retry_after = Fin 0, body = [] \<rparr>"

definition broken_after_two :: "nat \<Rightarrow> net_outcome" where
  "broken_after_two k =
     (if k < 2 then Replies 150 \<lparr> status = 404, retry_after = Fin 0, body = [] \<rparr>
      else Replies 150 \<lparr> status = 500, retry_after = Fin 0, body = ''internal error'' \<rparr>)"

section \<open>Token records\<close>

text \<open>
  \<open>BtgOAuthToken\<close> of the BTG extension and \<open>TokenState\<close> of the Mercado Livre
  extension, which adds the user id. \<open>expires\<close> is a time in milliseconds.
\<close>

record BtgOAuthToken =
  access :: string
  refresh :: string
  expires :: int

record TokenState = BtgOAuthToken +
  userId :: nat

section \<open>The authorization-code flow of Mercado Livre (index.ts)\<close>

text \<open>The \<open>OAuthState\<close> that \<open>createAuthorizationUrl\<close> returns for one login attempt.\<close>

record OAuthState =
  state :: string
  codeVerifier :: string
  codeChallenge :: string

text \<open>
  The errors of \<open>run\<close>: the four it throws itself (the \<open>TypeError\<close> of \<open>new URL\<close> among
  them) and whatever \<open>exchangeCodeForTokens\<close> throws.
\<close>

datatype 'e run_error =
    AuthorizationCancelled
  | InvalidURL
  | NoAuthorizationCode
  | StateMismatch
  | ExchangeThrew 'e

text \<open>
  What one run does: how it ends, the calls of the token endpoint it made (the code and
  the verifier sent), and the token handed to \<open>tokenManager.setToken\<close>.
\<close>

record 'e run_result =
  outcome :: "'e run_error + TokenState"
  exchange_calls :: "(string \<times> string) list"
  stored :: "TokenState option"

definition run_throws :: "'e run_error \<Rightarrow> 'e run_result" where
  "run_throws err = \<lparr> outcome = Inl err, exchange_calls = [], stored = None \<rparr>"

text \<open>\<open>searchParams.get(name)\<close>: the first value of that name, or null.\<close>

definition searchParams_get :: "(string \<times> string) list \<Rightarrow> string \<Rightarrow> string option" where
  "searchParams_get params name = map_of params name"

text \<open>
  \<open>run\<close> from the pasted redirect URL on. \<open>parsedUrl\<close> is what \<open>new URL(redirectUrl)\<close> gives:
  \<open>None\<close> when it throws, else the query parameters of the URL in order. \<open>exchange\<close> is
  \<open>exchangeCodeForTokens\<close> with the configuration fixed: the token endpoint's answer to a
  code and a verifier, already parsed, or the value thrown.
\<close>

definition authorization_code_run ::
  "OAuthState \<Rightarrow> string \<Rightarrow> (string \<times> string) list option
   \<Rightarrow> (string \<Rightarrow> string \<Rightarrow> 'e + TokenState) \<Rightarrow> 'e run_result" where
  "authorization_code_run st redirectUrl parsedUrl exchange =
     (if redirectUrl = [] then run_throws AuthorizationCancelled
      else
        (case parsedUrl of
           None \<Rightarrow> run_throws InvalidURL
         | Some params \<Rightarrow>
             (let code = searchParams_get params ''code'';
                  returnedState = searchParams_get params ''state''
              in case code of
                   None \<Rightarrow> run_throws NoAuthorizationCode
                 | Some c \<Rightarrow>
                     if c = [] then run_throws NoAuthorizationCode
                     else if returnedState \<noteq> Some (state st) then run_throws StateMismatch
                     else
                       (case exchange c (codeVerifier st) of
                          Inl err \<Rightarrow>
                            \<lparr> outcome = Inl (ExchangeThrew err),
                              exchange_calls = [(c, codeVerifier st)], stored = None \<rparr>
                        | Inr tokenState \<Rightarrow>
                            \<lparr> outcome = Inr tokenState,
                              exchange_calls = [(c, codeVerifier st)],
                              stored = Some tokenState \<rparr>))))"

text \<open>A login attempt and a token endpoint that grants every code, for the examples.\<close>

definition login_attempt :: OAuthState where
  "login_attempt =
     \<lparr> state = ''5f2c-issued'', codeVerifier = ''verifier'', codeChallenge = ''challenge'' \<rparr>"

definition granting_endpoint :: "string \<Rightarrow> string \<Rightarrow> unit + TokenState" where
  "granting_endpoint code verifier =
     Inr \<lparr> access = ''A1'', refresh = ''R1'', expires = 21600000, userId = 7 \<rparr>"

section \<open>The token managers\<close>

text \<open>
  \<open>getToken\<close> is asynchronous and the runtime runs one piece of code at a time, so a call runs
  without interruption up to the one point where it waits: the promise of the refresh. The
  model has one step for a call of \<open>getToken\<close>, from its start to its return or to that
  wait, and one step for the moment the refresh request settles, which runs the rest of the
  refresh and resumes every caller that waits. Callers are numbered.

  The state holds the two variables of the source, \<open>tokenState\<close> and \<open>refreshPromise\<close>, and
  what can be observed from outside: the callers that wait on the pending promise, the
  refresh tokens sent to the token endpoint (one entry per network call), and how each
  finished call of \<open>getToken\<close> ended.
\<close>

datatype 'e auth_error = NotAuthenticated | ClientIdRequired | RefreshThrew 'e

datatype 'e promise = Pending | Rejected "'e auth_error"

record ('e, 't) manager =
  tokenState :: "'t option"
  refreshPromise :: "'e promise option"
  awaiting :: "nat list"
  sent :: "string list"
  answers :: "(nat \<times> ('e auth_error + string)) list"

definition returns :: "nat \<Rightarrow> 'e auth_error + string \<Rightarrow> ('e, 't) manager \<Rightarrow> ('e, 't) manager" where
  "returns caller r m = m\<lparr> answers := answers m @ [(caller, r)] \<rparr>"

text \<open>
  \<open>return refreshPromise\<close>: the caller waits when the promise is pending and gets its
  error when it is already rejected. Both functions reach this line with the variable
  set, so the last case does not occur.
\<close>

definition return_refreshPromise :: "nat \<Rightarrow> ('e, 't) manager \<Rightarrow> ('e, 't) manager" where
  "return_refreshPromise caller m =
     (case refreshPromise m of
        Some Pending \<Rightarrow> m\<lparr> awaiting := awaiting m @ [caller] \<rparr>
      | Some (Rejected err) \<Rightarrow> returns caller (Inl err) m
      | None \<Rightarrow> m)"

subsection \<open>BTG Pactual (btg-pactual/index.ts)\<close>

definition BTG_REFRESH_BUFFER_MS :: int where
  "BTG_REFRESH_BUFFER_MS = 15 * 60 * 1000"

text \<open>\<open>getClientId\<close>: throws when \<open>BTG_CLIENT_ID\<close> is unset or empty.\<close>

definition getClientId :: "string option \<Rightarrow> string option" where
  "getClientId env = (case env of None \<Rightarrow> None | Some v \<Rightarrow> if v = [] then None else Some v)"

text \<open>
  A call of \<open>getToken\<close> by \<open>caller\<close> at time \<open>now\<close>, with \<open>env\<close> the value of
  \<open>BTG_CLIENT_ID\<close>. When no refresh is pending the body of the refresh starts inside the
  call: with a client id it sends the request and waits; without one \<open>getClientId\<close> throws
  before anything is sent, the \<open>catch\<close> clears \<open>tokenState\<close>, the \<open>finally\<close> clears
  \<open>refreshPromise\<close>, and the assignment that follows stores the rejected promise.
\<close>

definition btg_getToken ::
  "nat \<Rightarrow> int \<Rightarrow> string option \<Rightarrow> ('e, BtgOAuthToken) manager \<Rightarrow> ('e, BtgOAuthToken) manager" where
  "btg_getToken caller now env m =
     (case tokenState m of
        None \<Rightarrow> returns caller (Inl NotAuthenticated) m
      | Some t \<Rightarrow>
          if now < expires t - BTG_REFRESH_BUFFER_MS then returns caller (Inr (access t)) m
          else if refresh t = [] then returns caller (Inl NotAuthenticated) m
          else
            (case refreshPromise m of
               Some p \<Rightarrow> return_refreshPromise caller m
             | None \<Rightarrow>
                 (case getClientId env of
                    Some clientId \<Rightarrow>
                      return_refreshPromise caller
                        (m\<lparr> sent := sent m @ [refresh t], refreshPromise := Some Pending \<rparr>)
                  | None \<Rightarrow>
                      return_refreshPromise caller
                        (m\<lparr> tokenState := None,
                            refreshPromise := Some (Rejected ClientIdRequired) \<rparr>))))"

text \<open>
  The refresh request settles with the token \<open>refreshBtgOAuth\<close> returns or with the value
  it throws: \<open>tokenState\<close> is replaced or cleared, \<open>refreshPromise\<close> is cleared, and every
  waiting caller gets the new access token or the error.
\<close>

definition btg_refresh_settles ::
  "'e + BtgOAuthToken \<Rightarrow> ('e, BtgOAuthToken) manager \<Rightarrow> ('e, BtgOAuthToken) manager" where
  "btg_refresh_settles r m =
     (case refreshPromise m of
        Some Pending \<Rightarrow>
          (case r of
             Inr newToken \<Rightarrow>
               m\<lparr> tokenState := Some newToken, refreshPromise := None, awaiting := [],
                  answers := answers m @ map (\<lambda>c. (c, Inr (access newToken))) (awaiting m) \<rparr>
           | Inl err \<Rightarrow>
               m\<lparr> tokenState := None, refreshPromise := None, awaiting := [],
                  answers := answers m @ map (\<lambda>c. (c, Inl (RefreshThrew err))) (awaiting m) \<rparr>)
      | _ \<Rightarrow> m)"

subsection \<open>Mercado Livre (mercadolivre-mcp/src/client.ts)\<close>

definition ML_REFRESH_BUFFER_MS :: int where
  "ML_REFRESH_BUFFER_MS = 5 * 60 * 1000"

definition ml_getToken ::
  "nat \<Rightarrow> int \<Rightarrow> ('e, TokenState) manager \<Rightarrow> ('e, TokenState) manager" where
  "ml_getToken caller now m =
     (case tokenState m of
        None \<Rightarrow> returns caller (Inl NotAuthenticated) m
      | Some t \<Rightarrow>
          if now < expires t - ML_REFRESH_BUFFER_MS then returns caller (Inr (access t)) m
          else
            (let currentRefreshToken = refresh t in
             case refreshPromise m of
               Some p \<Rightarrow> return_refreshPromise caller m
             | None \<Rightarrow>
                 return_refreshPromise caller
                   (m\<lparr> sent := sent m @ [currentRefreshToken],
                       refreshPromise := Some Pending \<rparr>)))"

text \<open>
  The refresh settles: on success \<open>tokenState\<close> is replaced; there is no \<open>catch\<close>, so on
  failure \<open>tokenState\<close> stays as it is. The \<open>finally\<close> clears \<open>refreshPromise\<close> either way.
\<close>

definition ml_refresh_settles ::
  "'e + TokenState \<Rightarrow> ('e, TokenState) manager \<Rightarrow> ('e, TokenState) manager" where
  "ml_refresh_settles r m =
     (case refreshPromise m of
        Some Pending \<Rightarrow>
          (case r of
             Inr newToken \<Rightarrow>
               m\<lparr> tokenState := Some newToken, refreshPromise := None, awaiting := [],
                  answers := answers m @ map (\<lambda>c. (c, Inr (access newToken))) (awaiting m) \<rparr>
           | Inl err \<Rightarrow>
               m\<lparr> refreshPromise := None, awaiting := [],
                  answers := answers m @ map (\<lambda>c. (c, Inl (RefreshThrew err))) (awaiting m) \<rparr>)
      | _ \<Rightarrow> m)"

subsection \<open>Several calls before the refresh settles\<close>



text \<open>A manager at rest: no refresh pending, nobody waiting, nothing sent or answered.\<close>

definition at_rest :: "'t option \<Rightarrow> ('e, 't) manager" where
  "at_rest tok =
     \<lparr> tokenState = tok, refreshPromise = None, awaiting = [], sent = [], answers = [] \<rparr>"


text \<open>Tokens for the examples, both expired at time 0.\<close>

definition stale_btg_token :: BtgOAuthToken where
  "stale_btg_token = \<lparr> access = ''A0'', refresh = ''R0'', expires = 0 \<rparr>"

definition stale_ml_token :: TokenState where
  "stale_ml_token = \<lparr> access = ''A0'', refresh = ''R0'', expires = 0, userId = 7 \<rparr>"

definition fresh_btg_token :: BtgOAuthToken where
  "fresh_btg_token = \<lparr> access = ''A1'', refresh = ''R1'', expires = 21600000 \<rparr>"

definition fresh_ml_token :: TokenState where
  "fresh_ml_token = \<lparr> access = ''A1'', refresh = ''R1'', expires = 21600000, userId = 7 \<rparr>"




definition btg_stale :: "(unit, BtgOAuthToken) manager" where
  "btg_stale = at_rest (Some stale_btg_token)"

definition ml_stale :: "(unit, TokenState) manager" where
  "ml_stale = at_rest (Some stale_ml_token)"

definition btg_fresh :: "(unit, BtgOAuthToken) manager" where
  "btg_fresh = at_rest (Some fresh_btg_token)"

definition ml_fresh :: "(unit, TokenState) manager" where
  "ml_fresh = at_rest (Some fresh_ml_token)"

section \<open>The validated fetch functions\<close>












section \<open>Writing CSV\<close>

text \<open>
  The text of a CSV file, to say what the parser makes of it: a cell is written as it is
  when it has no quote, comma or line feed, or in quotes with every quote doubled; the
  cells of a line are joined by commas, the lines by line feeds.
\<close>

datatype cell = Plain string | Quoted string

fun cell_text :: "cell \<Rightarrow> string" where
  "cell_text (Plain s) = s"
| "cell_text (Quoted s) = s"

definition escape_quotes :: "string \<Rightarrow> string" where
  "escape_quotes s = concat (map (\<lambda>c. if c = dquote then [dquote, dquote] else [c]) s)"

fun written :: "cell \<Rightarrow> string" where
  "written (Plain s) = s"
| "written (Quoted s) = dquote # escape_quotes s @ [dquote]"

fun writable :: "cell \<Rightarrow> bool" where
  "writable (Plain s) = (dquote \<notin> set s \<and> comma \<notin> set s \<and> newline_char \<notin> set s)"
| "writable (Quoted s) = (newline_char \<notin> set s)"

fun join_with :: "char \<Rightarrow> string list \<Rightarrow> string" where
  "join_with sep [] = []"
| "join_with sep [x] = x"
| "join_with sep (x # y # ys) = x @ sep # join_with sep (y # ys)"

definition csv_line :: "cell list \<Rightarrow> string" where
  "csv_line cells = join_with comma (map written cells)"

definition csv_text :: "cell list list \<Rightarrow> string" where
  "csv_text lines = join_with newline_char (map csv_line lines)"

text \<open>A line that can be written: at least one cell, every cell writable.\<close>

definition writable_line :: "cell list \<Rightarrow> bool" where
  "writable_line cells = (cells \<noteq> [] \<and> list_all writable cells)"

text \<open>What the parser is to make of a cell: its text without the surrounding white space.\<close>

definition trimmed_text :: "cell \<Rightarrow> string" where
  "trimmed_text c = trim (cell_text c)"

text \<open>A line that the parser skips: nothing but white space.\<close>

definition blank_line :: "cell list \<Rightarrow> bool" where
  "blank_line cells = (trim (csv_line cells) = [])"

text \<open>
  Two cells that differ only in surrounding white space: written the same way, with the
  same text once trimmed.
\<close>

fun same_cell :: "cell \<Rightarrow> cell \<Rightarrow> bool" where
  "same_cell (Plain s) (Plain t) = (trim s = trim t)"
| "same_cell (Quoted s) (Quoted t) = (trim s = trim t)"
| "same_cell _ _ = False"

text \<open>
  A table written with white space around every cell, and the same table without it.
\<close>

definition spaced_header :: "cell list" where
  "spaced_header = [Plain '' name '', Quoted '' value '']"

definition spaced_lines :: "cell list list" where
  "spaced_lines = [[Plain '' a '', Quoted '' 1 ''], [Plain ''  ''], [Quoted '' x, y '', Plain ''-2 '']]"

definition bare_header :: "cell list" where
  "bare_header = [Plain ''name'', Quoted ''value'']"

definition bare_lines :: "cell list list" where
  "bare_lines = [[Plain ''a'', Quoted ''1''], [Plain ''''], [Quoted ''x, y'', Plain ''-2'']]"

section \<open>Properties of sanitizeValue\<close>

lemma sanitizeValue_cases:
  "sanitizeValue v = v \<or> sanitizeValue v = apostrophe # v"
  by (simp add: sanitizeValue_def)

lemma sanitizeValue_apostrophe:
  "sanitizeValue (apostrophe # v) = apostrophe # v"
  by (simp add: sanitizeValue_def starts_formula_def starts_sign_def starts_control_def
      apostrophe_def)

lemma spec_signed_decimal_valid_number:
  "spec_signed_decimal v \<Longrightarrow> valid_number v"
  unfolding spec_signed_decimal_def valid_number_def Let_def
  by (cases "dropWhile is_digit (strip_sign v)") (simp_all del: dropWhile_eq_Nil_conv)

lemma valid_number_first:
  assumes "valid_number v"
  shows "\<not> starts_formula v \<and> \<not> starts_control v"
proof (cases v)
  case Nil
  then show ?thesis by (simp add: starts_formula_def starts_control_def)
next
  case (Cons c cs)
  show ?thesis
  proof (cases "starts_sign v")
    case True
    then show ?thesis
      using Cons by (auto simp: starts_sign_def starts_formula_def starts_control_def)
  next
    case False
    with assms Cons have "is_digit c"
      by (auto simp: valid_number_def strip_sign_def Let_def split: if_splits)
    then show ?thesis
      using Cons by (auto simp: is_digit_def starts_formula_def starts_control_def)
  qed
qed

text \<open>
  C9. The sanitizer is idempotent: sanitizing a sanitized value changes nothing, since a
  value that begins with the apostrophe meets none of the three tests.
\<close>

theorem sanitizeValue_idempotent:
  "sanitizeValue (sanitizeValue v) = sanitizeValue v"
  using sanitizeValue_cases [of v] by (auto simp: sanitizeValue_apostrophe)

theorem sanitizeValue_idempotent_witness:
  "sanitizeValue (sanitizeValue ''=SUM(A1)'') = sanitizeValue ''=SUM(A1)''
   \<and> sanitizeValue ''=SUM(A1)'' = CHR 0x27 # ''=SUM(A1)''"
  using sanitizeValue_idempotent [of "''=SUM(A1)''"]
  by (simp add: sanitizeValue_def starts_formula_def apostrophe_def)

text \<open>
  C2, as stated, at the value \<open>-5.\<close>: it begins with a sign, neither the value nor its
  remainder \<open>5.\<close> matches \<open>^[+-]?\d+(\.\d+)?$\<close>, and the sanitizer returns it unchanged,
  since the expression of the source accepts a point with no digit after it.
\<close>

theorem sanitizeValue_trailing_point_counterexample:
  "starts_sign ''-5.'' \<and> \<not> spec_signed_decimal ''-5.'' \<and> \<not> spec_signed_decimal ''5.''
   \<and> sanitizeValue ''-5.'' \<noteq> apostrophe # ''-5.'' \<and> sanitizeValue ''-5.'' = ''-5.''"
  by (simp add: sanitizeValue_def starts_formula_def starts_sign_def starts_control_def
      valid_number_def spec_signed_decimal_def strip_sign_def is_digit_def apostrophe_def)

text \<open>
  C2, amended. The sanitizer is the identity on every string that matches
  \<open>^[+-]?\d+(\.\d+)?$\<close>, and more generally on every string that matches the expression of
  the source, \<open>^[+-]?\d+\.?\d*$\<close>. For every value that begins with \<open>=\<close> or \<open>@\<close>, or that
  begins with \<open>+\<close> or \<open>-\<close> and does not match \<open>^[+-]?\d+\.?\d*$\<close>, the result is the value
  with exactly one apostrophe in front.
\<close>

theorem sanitizeValue_numbers_and_formulas:
  "(spec_signed_decimal a \<longrightarrow> sanitizeValue a = a)
   \<and> (valid_number b \<longrightarrow> sanitizeValue b = b)
   \<and> (starts_formula c \<or> (starts_sign c \<and> \<not> valid_number c)
        \<longrightarrow> sanitizeValue c = apostrophe # c)"
proof -
  have id: "sanitizeValue x = x" if "valid_number x" for x
    using that valid_number_first [OF that] by (simp add: sanitizeValue_def)
  have "sanitizeValue a = a" if "spec_signed_decimal a"
    using that by (simp add: id spec_signed_decimal_valid_number)
  moreover have "sanitizeValue c = apostrophe # c"
    if "starts_formula c \<or> (starts_sign c \<and> \<not> valid_number c)"
    using that by (auto simp: sanitizeValue_def)
  ultimately show ?thesis
    using id by blast
qed

theorem sanitizeValue_numbers_and_formulas_witness:
  "spec_signed_decimal ''-3.14'' \<and> sanitizeValue ''-3.14'' = ''-3.14''
   \<and> valid_number ''+100.'' \<and> sanitizeValue ''+100.'' = ''+100.''
   \<and> starts_sign ''+cmd.exe'' \<and> \<not> valid_number ''+cmd.exe''
   \<and> sanitizeValue ''+cmd.exe'' = apostrophe # ''+cmd.exe''"
proof -
  have a: "spec_signed_decimal ''-3.14''"
    by (simp add: spec_signed_decimal_def strip_sign_def starts_sign_def is_digit_def)
  have b: "valid_number ''+100.''"
    by (simp add: valid_number_def strip_sign_def starts_sign_def is_digit_def)
  have c: "starts_sign ''+cmd.exe'' \<and> \<not> valid_number ''+cmd.exe''"
    by (simp add: valid_number_def strip_sign_def starts_sign_def is_digit_def)
  show ?thesis
    using a b c
      sanitizeValue_numbers_and_formulas [of "''-3.14''" "''+100.''" "''+cmd.exe''"]
    by blast
qed

section \<open>Properties of the CSV parser\<close>

lemma trim_ends:
  assumes "trim s \<noteq> []"
  shows "\<not> is_space (hd (trim s)) \<and> \<not> is_space (last (trim s))"
proof -
  let ?t = "dropWhile is_space s"
  let ?u = "dropWhile is_space (rev ?t)"
  have u: "trim s = rev ?u" by (simp add: trim_def)
  with assms have ne: "?u \<noteq> []" by simp
  then have "\<not> is_space (hd ?u)" by (rule hd_dropWhile)
  then have l: "\<not> is_space (last (trim s))" using ne by (simp add: u last_rev)
  have "rev (rev ?t) = rev (takeWhile is_space (rev ?t) @ ?u)"
    by (simp only: takeWhile_dropWhile_id)
  then have t: "?t = trim s @ rev (takeWhile is_space (rev ?t))"
    by (simp only: rev_rev_ident rev_append u)
  have tne: "?t \<noteq> []"
  proof
    assume e: "?t = []"
    have "trim s = []" unfolding trim_def e by simp
    with assms show False by simp
  qed
  then have "\<not> is_space (hd ?t)" by (rule hd_dropWhile)
  moreover have "hd (trim s @ rev (takeWhile is_space (rev ?t))) = hd (trim s)"
    using assms by (rule hd_append2)
  ultimately show ?thesis using l t by simp
qed

lemma trim_id_iff:
  "trim x = x \<longleftrightarrow> x = [] \<or> (\<not> is_space (hd x) \<and> \<not> is_space (last x))"
proof
  assume "trim x = x"
  then show "x = [] \<or> (\<not> is_space (hd x) \<and> \<not> is_space (last x))"
    using trim_ends [of x] by auto
next
  assume a: "x = [] \<or> (\<not> is_space (hd x) \<and> \<not> is_space (last x))"
  show "trim x = x"
  proof (cases "x = []")
    case True then show ?thesis by (simp add: trim_def)
  next
    case False
    with a have "dropWhile is_space x = x" by (simp add: dropWhile_eq_self_iff)
    moreover have "dropWhile is_space (rev x) = rev x"
      using a False by (simp add: dropWhile_eq_self_iff hd_rev)
    ultimately show ?thesis by (simp add: trim_def)
  qed
qed

lemma trim_idem: "trim (trim s) = trim s"
  using trim_ends [of s] trim_id_iff [of "trim s"] by blast

lemma trim_spaces:
  assumes "\<forall>c\<in>set a. is_space c" "\<forall>c\<in>set b. is_space c"
  shows "trim (a @ s @ b) = trim s"
proof -
  have 1: "dropWhile is_space (a @ s @ b) = dropWhile is_space (s @ b)"
    using assms by simp
  show ?thesis
  proof (cases "\<forall>c\<in>set s. is_space c")
    case True
    then have "dropWhile is_space s = []" "dropWhile is_space (s @ b) = []"
      using assms by simp_all
    then show ?thesis by (simp only: trim_def 1)
  next
    case False
    then have "dropWhile is_space (s @ b) = dropWhile is_space s @ b"
      by (auto simp: dropWhile_append)
    moreover have "dropWhile is_space (rev b @ rev (dropWhile is_space s)) =
        dropWhile is_space (rev (dropWhile is_space s))"
      using assms(2) by (simp add: dropWhile_append)
    ultimately show ?thesis using 1 by (simp add: trim_def)
  qed
qed

lemma trim_sanitizeValue:
  assumes "trim x = x"
  shows "trim (sanitizeValue x) = sanitizeValue x"
proof (cases "sanitizeValue x = x")
  case True
  then show ?thesis using assms by simp
next
  case False
  then have s: "sanitizeValue x = apostrophe # x"
    using sanitizeValue_cases [of x] by simp
  have "x \<noteq> []" using False
    by (auto simp: sanitizeValue_def starts_formula_def starts_sign_def starts_control_def)
  then have "\<not> is_space (last x)" using assms by (simp add: trim_id_iff)
  moreover have "\<not> is_space apostrophe" by (simp add: is_space_def apostrophe_def)
  ultimately show ?thesis using \<open>x \<noteq> []\<close> by (simp add: s trim_id_iff)
qed

lemma is_space_not_special: "is_space c \<Longrightarrow> c \<noteq> dquote \<and> c \<noteq> comma"
  by (auto simp: is_space_def dquote_def comma_def)

lemma loop_open_quote:
  "cs \<noteq> [] \<Longrightarrow>
   parseCSVLine_loop (dquote # cs) cur False res = parseCSVLine_loop cs cur True res"
  by (cases cs) simp_all

lemma loop_fields:
  "f \<in> set (parseCSVLine_loop l cur q res) \<Longrightarrow> f \<in> set res \<or> (\<exists>x. f = trim x)"
proof (induction l cur q res rule: parseCSVLine_loop.induct)
  case (1 current inQuotes result)
  then show ?case by auto
next
  case (2 c cs current inQuotes result)
  show ?case
  proof (cases "c = dquote")
    case True
    then show ?thesis using 2 by (cases cs) (auto split: if_splits)
  next
    case False
    then show ?thesis using 2 by (cases "c = comma \<and> \<not> inQuotes") auto
  qed
qed

lemma parseCSVLine_trimmed: "f \<in> set (parseCSVLine line) \<Longrightarrow> trim f = f"
  unfolding parseCSVLine_def using loop_fields [of f line "[]" False "[]"]
  by (auto simp: trim_idem)

lemma value_at_trimmed: "trim (value_at (parseCSVLine line) j) = value_at (parseCSVLine line) j"
proof -
  have "trim [] = []" by (simp add: trim_def)
  then show ?thesis by (auto simp: value_at_def intro!: parseCSVLine_trimmed nth_mem)
qed

lemma foldl_row_ran:
  "v \<in> ran (foldl (\<lambda>row j. assign row (hs ! j) (g j)) m js) \<Longrightarrow>
   v \<in> ran m \<or> (\<exists>j\<in>set js. v = g j)"
proof (induction js arbitrary: m)
  case Nil
  then show ?case by simp
next
  case (Cons j js)
  from Cons.prems
  have "v \<in> ran (foldl (\<lambda>row j. assign row (hs ! j) (g j)) (assign m (hs ! j) (g j)) js)"
    by (simp only: foldl_Cons)
  from Cons.IH [OF this]
  show ?case by (auto simp: assign_def ran_def split: if_splits)
qed

lemma foldl_row_dom:
  "h \<in> dom (foldl (\<lambda>row j. assign row (hs ! j) (g j)) m js) \<Longrightarrow>
   h \<in> dom m \<or> (\<exists>j\<in>set js. h = hs ! j)"
proof (induction js arbitrary: m)
  case Nil
  then show ?case by simp
next
  case (Cons j js)
  from Cons.prems
  have "h \<in> dom (foldl (\<lambda>row j. assign row (hs ! j) (g j)) (assign m (hs ! j) (g j)) js)"
    by (simp only: foldl_Cons)
  from Cons.IH [OF this]
  show ?case by (auto simp: assign_def split: if_splits)
qed

lemma make_row_ran:
  "v \<in> ran (make_row hs vals) \<Longrightarrow> \<exists>j. v = sanitizeValue (value_at vals j)"
  unfolding make_row_def using foldl_row_ran [of v hs _ Map.empty] by fastforce

lemma make_row_dom: "h \<in> dom (make_row hs vals) \<Longrightarrow> h \<in> set hs"
  unfolding make_row_def using foldl_row_dom [of h hs _ Map.empty "[0..<length hs]"] by fastforce

lemma trim_lead: "\<forall>c\<in>set a. is_space c \<Longrightarrow> trim (a @ s) = trim s"
  using trim_spaces [of a "[]" s] by simp

lemma trim_trail: "\<forall>c\<in>set b. is_space c \<Longrightarrow> trim (s @ b) = trim s"
  using trim_spaces [of "[]" b s] by simp

lemma step_quote_end: "parseCSVLine_loop [dquote] cur q res = res @ [trim cur]"
  by simp

lemma step_quote_escaped:
  "parseCSVLine_loop (dquote # dquote # ds) cur True res = parseCSVLine_loop ds (cur @ [dquote]) True res"
  by (subst parseCSVLine_loop.simps) (simp del: parseCSVLine_loop.simps)

lemma step_quote_toggle:
  "d \<noteq> dquote \<or> \<not> q \<Longrightarrow>
   parseCSVLine_loop (dquote # d # ds) cur q res = parseCSVLine_loop (d # ds) cur (\<not> q) res"
  by (subst parseCSVLine_loop.simps) (auto simp del: parseCSVLine_loop.simps)

lemma step_comma:
  "parseCSVLine_loop (comma # cs) cur False res = parseCSVLine_loop cs [] False (res @ [trim cur])"
  by (subst parseCSVLine_loop.simps) (simp del: parseCSVLine_loop.simps add: comma_def dquote_def)

lemma step_char:
  "c \<noteq> dquote \<Longrightarrow> c \<noteq> comma \<or> q \<Longrightarrow>
   parseCSVLine_loop (c # cs) cur q res = parseCSVLine_loop cs (cur @ [c]) q res"
  by (subst parseCSVLine_loop.simps) (auto simp del: parseCSVLine_loop.simps)

lemma loop_no_quote:
  "dquote \<notin> set s \<Longrightarrow> q \<or> comma \<notin> set s \<Longrightarrow>
   parseCSVLine_loop s cur q res = res @ [trim (cur @ s)]"
proof (induction s arbitrary: cur)
  case Nil
  then show ?case by simp
next
  case (Cons c s)
  then have "parseCSVLine_loop (c # s) cur q res = parseCSVLine_loop s (cur @ [c]) q res"
    by (intro step_char) auto
  also have "\<dots> = res @ [trim ((cur @ [c]) @ s)]"
    using Cons by (intro Cons.IH) auto
  finally show ?case by simp
qed

lemma loop_lead:
  "\<forall>c\<in>set a. is_space c \<Longrightarrow>
   parseCSVLine_loop (a @ l) cur q res = parseCSVLine_loop l (cur @ a) q res"
proof (induction a arbitrary: cur)
  case Nil
  then show ?case by simp
next
  case (Cons c a)
  then have "c \<noteq> dquote" "c \<noteq> comma" using is_space_not_special [of c] by auto
  then have "parseCSVLine_loop ((c # a) @ l) cur q res = parseCSVLine_loop (a @ l) (cur @ [c]) q res"
    using step_char [of c q "a @ l" cur res] by simp
  also have "\<dots> = parseCSVLine_loop l ((cur @ [c]) @ a) q res"
    using Cons by (intro Cons.IH) auto
  finally show ?case by simp
qed


lemma loop_drop_lead:
  "\<forall>c\<in>set a. is_space c \<Longrightarrow>
   parseCSVLine_loop l (a @ cur) q res = parseCSVLine_loop l cur q res"
proof (induction l cur q res rule: parseCSVLine_loop.induct)
  case (1 current inQuotes result)
  then show ?case by (simp add: trim_lead)
next
  case (2 c cs current inQuotes result)
  note sp = \<open>\<forall>c\<in>set a. is_space c\<close>
  show ?case
  proof (cases "c = dquote")
    case True
    show ?thesis
    proof (cases cs)
      case Nil
      then show ?thesis using True sp by (simp add: trim_lead)
    next
      case (Cons d ds)
      show ?thesis
      proof (cases "inQuotes \<and> d = dquote")
        case t: True
        then show ?thesis
          using 2(2) [OF True Cons t sp] True Cons by (simp add: step_quote_escaped del: parseCSVLine_loop.simps)
      next
        case f: False
        then have "d \<noteq> dquote \<or> \<not> inQuotes" by blast
        then show ?thesis
          using 2(3) [OF True Cons f sp] True Cons
          by (simp add: step_quote_toggle del: parseCSVLine_loop.simps)
      qed
    qed
  next
    case False
    show ?thesis
    proof (cases "c = comma \<and> \<not> inQuotes")
      case t: True
      then show ?thesis using sp by (simp add: step_comma trim_lead del: parseCSVLine_loop.simps)
    next
      case f: False
      then have "c \<noteq> comma \<or> inQuotes" by blast
      then show ?thesis
        using 2(5) [OF False f sp] False
        by (simp add: step_char del: parseCSVLine_loop.simps)
    qed
  qed
qed

lemma loop_trail:
  "\<forall>c\<in>set b. is_space c \<Longrightarrow>
   parseCSVLine_loop (l @ b) cur q res = parseCSVLine_loop l cur q res"
proof (induction l cur q res rule: parseCSVLine_loop.induct)
  case (1 current inQuotes result)
  then have "dquote \<notin> set b" "comma \<notin> set b" using is_space_not_special by blast+
  then have "parseCSVLine_loop b current inQuotes result = result @ [trim (current @ b)]"
    by (intro loop_no_quote) auto
  then show ?case using 1 by (simp add: trim_trail)
next
  case (2 c cs current inQuotes result)
  note sp = \<open>\<forall>c\<in>set b. is_space c\<close>
  then have nq: "dquote \<notin> set b" "comma \<notin> set b" using is_space_not_special by blast+
  show ?case
  proof (cases "c = dquote")
    case True
    show ?thesis
    proof (cases cs)
      case Nil
      show ?thesis
      proof (cases b)
        case n: Nil
        then show ?thesis by simp
      next
        case (Cons d ds)
        then have "d \<noteq> dquote" using nq by auto
        then have "parseCSVLine_loop (dquote # d # ds) current inQuotes result =
            parseCSVLine_loop (d # ds) current (\<not> inQuotes) result"
          by (intro step_quote_toggle) simp
        also have "\<dots> = result @ [trim (current @ b)]"
          using nq Cons loop_no_quote [of b "\<not> inQuotes" current result] by simp
        finally show ?thesis using True Nil Cons sp
          by (simp add: trim_trail step_quote_end del: parseCSVLine_loop.simps)
      qed
    next
      case (Cons d ds)
      show ?thesis
      proof (cases "inQuotes \<and> d = dquote")
        case t: True
        then show ?thesis
          using 2(2) [OF True Cons t sp] True Cons by (simp add: step_quote_escaped del: parseCSVLine_loop.simps)
      next
        case f: False
        then have "d \<noteq> dquote \<or> \<not> inQuotes" by blast
        then show ?thesis
          using 2(3) [OF True Cons f sp] True Cons
          by (simp add: step_quote_toggle del: parseCSVLine_loop.simps)
      qed
    qed
  next
    case False
    show ?thesis
    proof (cases "c = comma \<and> \<not> inQuotes")
      case t: True
      then show ?thesis using 2(4) [OF False t sp]
        by (simp add: step_comma del: parseCSVLine_loop.simps)
    next
      case f: False
      then have "c \<noteq> comma \<or> inQuotes" by blast
      then show ?thesis
        using 2(5) [OF False f sp] False
        by (simp add: step_char del: parseCSVLine_loop.simps)
    qed
  qed
qed

lemma parseCSVLine_spaces:
  assumes "\<forall>c\<in>set a. is_space c" "\<forall>c\<in>set b. is_space c"
  shows "parseCSVLine (a @ l @ b) = parseCSVLine l"
proof -
  have "parseCSVLine_loop (a @ l @ b) [] False [] = parseCSVLine_loop (l @ b) ([] @ a) False []"
    using assms(1) by (rule loop_lead)
  also have "\<dots> = parseCSVLine_loop (l @ b) (a @ []) False []" by simp
  also have "\<dots> = parseCSVLine_loop (l @ b) [] False []"
    using assms(1) by (rule loop_drop_lead)
  also have "\<dots> = parseCSVLine_loop l [] False []"
    using assms(2) by (rule loop_trail)
  finally show ?thesis by (simp only: parseCSVLine_def)
qed

lemma trim_decomp:
  "\<exists>a b. (\<forall>c\<in>set a. is_space c) \<and> (\<forall>c\<in>set b. is_space c) \<and> l = a @ trim l @ b"
proof -
  let ?a = "takeWhile is_space l"
  let ?d = "dropWhile is_space l"
  let ?b = "rev (takeWhile is_space (rev ?d))"
  have "rev ?d = takeWhile is_space (rev ?d) @ dropWhile is_space (rev ?d)" by simp
  then have "rev (rev ?d) = rev (takeWhile is_space (rev ?d) @ dropWhile is_space (rev ?d))"
    by (rule arg_cong)
  then have "?d = trim l @ ?b" by (simp only: rev_rev_ident rev_append trim_def)
  moreover have "l = ?a @ ?d" by simp
  ultimately have "l = ?a @ trim l @ ?b" by simp
  moreover have "\<forall>c\<in>set ?a. is_space c" by (auto dest: set_takeWhileD)
  moreover have "\<forall>c\<in>set ?b. is_space c" by (auto dest: set_takeWhileD)
  ultimately show ?thesis by blast
qed

lemma parseCSVLine_trim: "parseCSVLine (trim l) = parseCSVLine l"
proof -
  obtain a b where ab: "\<forall>c\<in>set a. is_space c" "\<forall>c\<in>set b. is_space c" "l = a @ trim l @ b"
    using trim_decomp by blast
  have "parseCSVLine (a @ trim l @ b) = parseCSVLine (trim l)"
    using ab(1,2) by (rule parseCSVLine_spaces)
  then show ?thesis using ab(3) by simp
qed

lemma loop_plain_comma:
  "dquote \<notin> set s \<Longrightarrow> comma \<notin> set s \<Longrightarrow>
   parseCSVLine_loop (s @ comma # rest) cur False res =
   parseCSVLine_loop rest [] False (res @ [trim (cur @ s)])"
proof (induction s arbitrary: cur)
  case Nil
  then show ?case by (simp add: step_comma del: parseCSVLine_loop.simps)
next
  case (Cons c s)
  then have "c \<noteq> dquote" "c \<noteq> comma" by auto
  then have "parseCSVLine_loop ((c # s) @ comma # rest) cur False res =
      parseCSVLine_loop (s @ comma # rest) (cur @ [c]) False res"
    by (simp add: step_char del: parseCSVLine_loop.simps)
  also have "\<dots> = parseCSVLine_loop rest [] False (res @ [trim ((cur @ [c]) @ s)])"
    using Cons by (intro Cons.IH) auto
  finally show ?case by simp
qed

lemma escape_quotes_Nil: "escape_quotes [] = []"
  by (simp add: escape_quotes_def)

lemma escape_quotes_quote: "escape_quotes (dquote # s) = dquote # dquote # escape_quotes s"
  by (simp add: escape_quotes_def)

lemma escape_quotes_char: "c \<noteq> dquote \<Longrightarrow> escape_quotes (c # s) = c # escape_quotes s"
  by (simp add: escape_quotes_def)

lemma loop_escaped_end:
  "parseCSVLine_loop (escape_quotes s @ [dquote]) cur True res = res @ [trim (cur @ s)]"
proof (induction s arbitrary: cur)
  case Nil
  then show ?case by (simp add: escape_quotes_Nil step_quote_end del: parseCSVLine_loop.simps)
next
  case (Cons c s)
  show ?case
  proof (cases "c = dquote")
    case True
    then show ?thesis
      using Cons [of "cur @ [dquote]"]
      by (simp add: escape_quotes_quote step_quote_escaped del: parseCSVLine_loop.simps)
  next
    case False
    then show ?thesis
      using Cons [of "cur @ [c]"]
      by (simp add: escape_quotes_char step_char del: parseCSVLine_loop.simps)
  qed
qed

lemma loop_escaped_comma:
  "parseCSVLine_loop (escape_quotes s @ dquote # comma # rest) cur True res =
   parseCSVLine_loop rest [] False (res @ [trim (cur @ s)])"
proof (induction s arbitrary: cur)
  case Nil
  have "comma \<noteq> dquote" by (simp add: comma_def dquote_def)
  then show ?case
    by (simp add: escape_quotes_Nil step_quote_toggle step_comma del: parseCSVLine_loop.simps)
next
  case (Cons c s)
  show ?case
  proof (cases "c = dquote")
    case True
    then show ?thesis
      using Cons [of "cur @ [dquote]"]
      by (simp add: escape_quotes_quote step_quote_escaped del: parseCSVLine_loop.simps)
  next
    case False
    then show ?thesis
      using Cons [of "cur @ [c]"]
      by (simp add: escape_quotes_char step_char del: parseCSVLine_loop.simps)
  qed
qed

lemma join_with_Cons: "ys \<noteq> [] \<Longrightarrow> join_with sep (x # ys) = x @ sep # join_with sep ys"
  by (cases ys) simp_all

lemma loop_cell_end:
  "writable c \<Longrightarrow> parseCSVLine_loop (written c) [] False res = res @ [trimmed_text c]"
proof (cases c)
  case (Plain s)
  assume "writable c"
  then show ?thesis using Plain loop_no_quote [of s False "[]" res]
    by (simp add: trimmed_text_def del: parseCSVLine_loop.simps)
next
  case (Quoted s)
  have "parseCSVLine_loop (dquote # escape_quotes s @ [dquote]) [] False res =
      parseCSVLine_loop (escape_quotes s @ [dquote]) [] True res"
    by (rule loop_open_quote) simp
  then show ?thesis using Quoted loop_escaped_end [of s "[]" res]
    by (simp add: trimmed_text_def del: parseCSVLine_loop.simps)
qed

lemma loop_cell_comma:
  "writable c \<Longrightarrow>
   parseCSVLine_loop (written c @ comma # rest) [] False res =
   parseCSVLine_loop rest [] False (res @ [trimmed_text c])"
proof (cases c)
  case (Plain s)
  assume "writable c"
  then show ?thesis using Plain loop_plain_comma [of s rest "[]" res]
    by (simp add: trimmed_text_def del: parseCSVLine_loop.simps)
next
  case (Quoted s)
  have "parseCSVLine_loop (dquote # escape_quotes s @ dquote # comma # rest) [] False res =
      parseCSVLine_loop (escape_quotes s @ dquote # comma # rest) [] True res"
    by (rule loop_open_quote) simp
  then show ?thesis using Quoted loop_escaped_comma [of s rest "[]" res]
    by (simp add: trimmed_text_def del: parseCSVLine_loop.simps)
qed

lemma loop_cells:
  "cells \<noteq> [] \<Longrightarrow> list_all writable cells \<Longrightarrow>
   parseCSVLine_loop (csv_line cells) [] False res = res @ map trimmed_text cells"
proof (induction cells arbitrary: res rule: list_nonempty_induct)
  case (single c)
  then show ?case using loop_cell_end [of c res] by (simp add: csv_line_def)
next
  case (cons c cells)
  have "csv_line (c # cells) = written c @ comma # csv_line cells"
    using cons.hyps by (simp add: csv_line_def join_with_Cons)
  moreover have "parseCSVLine_loop (written c @ comma # csv_line cells) [] False res =
      parseCSVLine_loop (csv_line cells) [] False (res @ [trimmed_text c])"
    using cons.prems by (intro loop_cell_comma) simp
  moreover have "parseCSVLine_loop (csv_line cells) [] False (res @ [trimmed_text c]) =
      (res @ [trimmed_text c]) @ map trimmed_text cells"
    using cons.prems by (intro cons.IH) simp
  ultimately show ?case by simp
qed

lemma parseCSVLine_cells:
  "writable_line cells \<Longrightarrow> parseCSVLine (csv_line cells) = map trimmed_text cells"
  using loop_cells [of cells "[]"] by (simp add: writable_line_def parseCSVLine_def)

lemma split_no_newline: "newline_char \<notin> set l \<Longrightarrow> split_newline l = [l]"
  by (induction l) auto

lemma split_append:
  "newline_char \<notin> set l \<Longrightarrow> split_newline (l @ newline_char # rest) = l # split_newline rest"
  by (induction l) auto

lemma split_join:
  "ls \<noteq> [] \<Longrightarrow> \<forall>l\<in>set ls. newline_char \<notin> set l \<Longrightarrow>
   split_newline (join_with newline_char ls) = ls"
proof (induction ls rule: list_nonempty_induct)
  case (single l)
  then show ?case by (simp add: split_no_newline)
next
  case (cons l ls)
  then show ?case by (simp add: join_with_Cons split_append)
qed

lemma set_join_with: "c \<in> set (join_with sep xs) \<Longrightarrow> c = sep \<or> (\<exists>x\<in>set xs. c \<in> set x)"
  by (induction sep xs rule: join_with.induct) auto

lemma set_escape_quotes: "c \<in> set (escape_quotes s) \<Longrightarrow> c = dquote \<or> c \<in> set s"
  by (auto simp: escape_quotes_def split: if_splits)

lemma written_no_newline: "writable c \<Longrightarrow> newline_char \<notin> set (written c)"
proof (cases c)
  case (Plain s)
  assume "writable c"
  then show ?thesis using Plain by simp
next
  case (Quoted s)
  assume "writable c"
  moreover have "newline_char \<noteq> dquote" by (simp add: newline_char_def dquote_def)
  ultimately show ?thesis using Quoted set_escape_quotes [of newline_char s] by auto
qed

lemma csv_line_no_newline:
  assumes "list_all writable cells"
  shows "newline_char \<notin> set (csv_line cells)"
proof
  assume "newline_char \<in> set (csv_line cells)"
  moreover have "newline_char \<noteq> comma" by (simp add: newline_char_def comma_def)
  ultimately obtain c where "c \<in> set cells" "newline_char \<in> set (written c)"
    using set_join_with [of newline_char comma "map written cells"] by (auto simp: csv_line_def)
  then show False using assms written_no_newline [of c] by (auto simp: list_all_iff)
qed

lemma split_csv_text:
  assumes "ls \<noteq> []" "list_all writable_line ls"
  shows "split_newline (csv_text ls) = map csv_line ls"
proof -
  have "\<forall>l\<in>set (map csv_line ls). newline_char \<notin> set l"
    using assms(2) csv_line_no_newline by (auto simp: list_all_iff writable_line_def)
  then show ?thesis using assms(1) split_join [of "map csv_line ls"] by (simp add: csv_text_def)
qed

lemma trim_Nil_iff: "trim s = [] \<longleftrightarrow> (\<forall>c\<in>set s. is_space c)"
proof
  assume "\<forall>c\<in>set s. is_space c"
  then have "dropWhile is_space s = []" by simp
  then show "trim s = []" by (simp only: trim_def rev.simps dropWhile.simps)
next
  assume t: "trim s = []"
  let ?d = "dropWhile is_space s"
  from t have "\<forall>c\<in>set ?d. is_space c" by (simp add: trim_def)
  moreover have "?d \<noteq> [] \<Longrightarrow> \<not> is_space (hd ?d)" by (rule hd_dropWhile)
  ultimately have "?d = []" by (cases ?d) (auto simp del: dropWhile_eq_Nil_conv)
  then show "\<forall>c\<in>set s. is_space c" by simp
qed

lemma sep_in_join: "ys \<noteq> [] \<Longrightarrow> sep \<in> set (join_with sep (x # ys))"
  by (simp add: join_with_Cons)

lemma blank_line_iff:
  assumes "writable_line cells"
  shows "blank_line cells \<longleftrightarrow> (\<exists>s. cells = [Plain s] \<and> trim s = [])"
proof
  assume "\<exists>s. cells = [Plain s] \<and> trim s = []"
  then show "blank_line cells" by (auto simp: blank_line_def csv_line_def)
next
  assume "blank_line cells"
  then have sp: "\<forall>c\<in>set (csv_line cells). is_space c"
    by (simp add: blank_line_def trim_Nil_iff)
  from assms obtain c cs where cells: "cells = c # cs"
    by (cases cells) (auto simp: writable_line_def)
  have "cs = []"
  proof (rule ccontr)
    assume "cs \<noteq> []"
    then have "comma \<in> set (csv_line cells)"
      using cells sep_in_join [of "map written cs" comma "written c"] by (simp add: csv_line_def)
    then show False using sp is_space_not_special by blast
  qed
  show "\<exists>s. cells = [Plain s] \<and> trim s = []"
  proof (cases c)
    case (Plain s)
    then show ?thesis using \<open>blank_line cells\<close> cells \<open>cs = []\<close>
      by (simp add: blank_line_def csv_line_def)
  next
    case (Quoted s)
    then have "dquote \<in> set (csv_line cells)"
      using cells \<open>cs = []\<close> by (simp add: csv_line_def)
    then show ?thesis using sp is_space_not_special by blast
  qed
qed

lemma parseCSVStream_written:
  assumes "writable_line header" "list_all writable_line lines"
  shows "parseCSVStream (csv_text (header # lines)) =
    map (\<lambda>cells. make_row (map trimmed_text header) (map trimmed_text cells))
      (filter (\<lambda>cells. \<not> blank_line cells) lines)"
proof -
  have s: "split_newline (csv_text (header # lines)) = csv_line header # map csv_line lines"
    using assms split_csv_text [of "header # lines"] by simp
  have h: "parseCSVLine (csv_line header) = map trimmed_text header"
    using assms(1) by (rule parseCSVLine_cells)
  have "parseCSVStream (csv_text (header # lines)) =
      map (\<lambda>cells. make_row (map trimmed_text header) (parseCSVLine (trim (csv_line cells))))
        (filter (\<lambda>cells. \<not> blank_line cells) lines)"
    by (simp add: parseCSVStream_def s h filter_map comp_def blank_line_def)
  also have "\<dots> = map (\<lambda>cells. make_row (map trimmed_text header) (map trimmed_text cells))
      (filter (\<lambda>cells. \<not> blank_line cells) lines)"
  proof (rule map_cong [OF refl])
    fix cells assume "cells \<in> set (filter (\<lambda>cells. \<not> blank_line cells) lines)"
    then have "writable_line cells" using assms(2) by (simp add: list_all_iff)
    then show "make_row (map trimmed_text header) (parseCSVLine (trim (csv_line cells))) =
        make_row (map trimmed_text header) (map trimmed_text cells)"
      by (simp add: parseCSVLine_trim parseCSVLine_cells)
  qed
  finally show ?thesis .
qed

lemma same_cell_text: "same_cell c d \<Longrightarrow> trimmed_text c = trimmed_text d"
  by (cases c; cases d) (simp_all add: trimmed_text_def)

lemma same_cells_text: "list_all2 same_cell cs ds \<Longrightarrow> map trimmed_text cs = map trimmed_text ds"
  by (induction rule: list_all2_induct) (simp_all add: same_cell_text)

lemma same_cells_blank:
  assumes "writable_line cs" "writable_line ds" "list_all2 same_cell cs ds"
  shows "blank_line cs = blank_line ds"
proof -
  have 1: "\<exists>t. ds = [Plain t] \<and> trim t = []"
    if a: "list_all2 same_cell cs ds" and b: "cs = [Plain s] \<and> trim s = []" for cs ds s
  proof -
    from a b obtain d where d: "ds = [d]" "same_cell (Plain s) d"
      by (auto simp: list_all2_Cons1)
    then show ?thesis using b by (cases d) auto
  qed
  have 2: "list_all2 same_cell ds cs"
  proof -
    have "same_cell c d \<Longrightarrow> same_cell d c" for c d by (cases c; cases d) auto
    then show ?thesis using assms(3) by (auto simp: list_all2_conv_all_nth)
  qed
  show ?thesis
    using 1 [OF assms(3)] 1 [OF 2] blank_line_iff [OF assms(1)] blank_line_iff [OF assms(2)]
    by blast
qed

lemma map_filter_all2:
  "list_all2 (\<lambda>x y. P x = Q y \<and> f x = g y) xs ys \<Longrightarrow> map f (filter P xs) = map g (filter Q ys)"
  by (induction rule: list_all2_induct) auto

lemma parseCSVStream_same:
  assumes "writable_line h1" "writable_line h2" "list_all2 same_cell h1 h2"
    and "list_all writable_line l1" "list_all writable_line l2"
    and "list_all2 (list_all2 same_cell) l1 l2"
  shows "parseCSVStream (csv_text (h1 # l1)) = parseCSVStream (csv_text (h2 # l2))"
proof -
  have h: "map trimmed_text h1 = map trimmed_text h2"
    using assms(3) by (rule same_cells_text)
  have "list_all2 (\<lambda>x y. (\<not> blank_line x) = (\<not> blank_line y)
        \<and> make_row (map trimmed_text h1) (map trimmed_text x) =
          make_row (map trimmed_text h2) (map trimmed_text y)) l1 l2"
    unfolding list_all2_conv_all_nth
  proof (intro conjI allI impI)
    show "length l1 = length l2" using assms(6) by (rule list_all2_lengthD)
  next
    fix i assume i: "i < length l1"
    then have s: "list_all2 same_cell (l1 ! i) (l2 ! i)"
      using assms(6) by (simp add: list_all2_conv_all_nth)
    have w: "writable_line (l1 ! i)" "writable_line (l2 ! i)"
      using i assms(4,5,6) by (auto simp: list_all_length dest: list_all2_lengthD)
    show "(\<not> blank_line (l1 ! i)) = (\<not> blank_line (l2 ! i))"
      using same_cells_blank [OF w s] by simp
    show "make_row (map trimmed_text h1) (map trimmed_text (l1 ! i)) =
        make_row (map trimmed_text h2) (map trimmed_text (l2 ! i))"
      using h same_cells_text [OF s] by simp
  qed
  then have "map (\<lambda>x. make_row (map trimmed_text h1) (map trimmed_text x))
        (filter (\<lambda>x. \<not> blank_line x) l1) =
      map (\<lambda>y. make_row (map trimmed_text h2) (map trimmed_text y))
        (filter (\<lambda>y. \<not> blank_line y) l2)"
    by (rule map_filter_all2)
  then show ?thesis
    using parseCSVStream_written [OF assms(1,4)] parseCSVStream_written [OF assms(2,5)]
    by simp
qed

lemma foldl_assign_lookup:
  "n \<le> length hs \<Longrightarrow> distinct hs \<Longrightarrow> j < n \<Longrightarrow> hs ! j \<noteq> ''__proto__'' \<Longrightarrow>
   foldl (\<lambda>row j. assign row (hs ! j) (g j)) Map.empty [0..<n] (hs ! j) = Some (g j)"
proof (induction n)
  case 0
  then show ?case by simp
next
  case (Suc n)
  let ?m = "foldl (\<lambda>row j. assign row (hs ! j) (g j)) Map.empty [0..<n]"
  have f: "foldl (\<lambda>row j. assign row (hs ! j) (g j)) Map.empty [0..<Suc n] =
      assign ?m (hs ! n) (g n)"
    by simp
  show ?case
  proof (cases "j = n")
    case True
    then show ?thesis using Suc.prems unfolding f by (simp add: assign_def)
  next
    case False
    then have j: "j < n" using Suc.prems by simp
    then have "hs ! j \<noteq> hs ! n" using Suc.prems by (simp add: nth_eq_iff_index_eq)
    then have "assign ?m (hs ! n) (g n) (hs ! j) = ?m (hs ! j)"
      by (simp add: assign_def)
    then show ?thesis using Suc j unfolding f by simp
  qed
qed

lemma make_row_lookup:
  "distinct hs \<Longrightarrow> j < length hs \<Longrightarrow> hs ! j \<noteq> ''__proto__'' \<Longrightarrow>
   make_row hs vals (hs ! j) = Some (sanitizeValue (value_at vals j))"
  unfolding make_row_def by (rule foldl_assign_lookup) simp_all

text \<open>
  C10. Every field that \<open>parseCSVLine\<close> returns is trimmed, and so are the column names and
  the values of every row of \<open>parseCSVStream\<close>. On a line written from cells, each plain or
  in quotes, \<open>parseCSVLine\<close> returns the trimmed text of every cell, in order, and white
  space around a whole line changes nothing. On a text written from a header line and data
  lines, \<open>parseCSVStream\<close> yields, for every line that is not blank, the row made of the
  trimmed column names and the trimmed cells; that row holds, under every column name that
  occurs once and is not \<open>__proto__\<close>, the sanitized trimmed cell of that column. Two texts
  whose cells differ only in surrounding white space give the same rows, so the rows do not
  tell which of the two was read.
\<close>

theorem parseCSV_fields_trimmed:
  "(\<forall>f\<in>set (parseCSVLine line). trim f = f)
   \<and> (\<forall>row\<in>set (parseCSVStream csv).
         (\<forall>h\<in>dom row. trim h = h) \<and> (\<forall>v\<in>ran row. trim v = v))
   \<and> (writable_line cells \<longrightarrow> parseCSVLine (csv_line cells) = map trimmed_text cells)
   \<and> ((\<forall>c\<in>set a. is_space c) \<and> (\<forall>c\<in>set b. is_space c)
        \<longrightarrow> parseCSVLine (a @ line2 @ b) = parseCSVLine line2)
   \<and> (writable_line header \<and> list_all writable_line lines \<longrightarrow>
        parseCSVStream (csv_text (header # lines)) =
          map (\<lambda>cells. make_row (map trimmed_text header) (map trimmed_text cells))
            (filter (\<lambda>cells. \<not> blank_line cells) lines))
   \<and> (distinct hs \<and> j < length hs \<and> hs ! j \<noteq> ''__proto__'' \<longrightarrow>
        make_row hs vals (hs ! j) = Some (sanitizeValue (value_at vals j)))
   \<and> (writable_line h1 \<and> writable_line h2 \<and> list_all2 same_cell h1 h2
        \<and> list_all writable_line l1 \<and> list_all writable_line l2
        \<and> list_all2 (list_all2 same_cell) l1 l2 \<longrightarrow>
        parseCSVStream (csv_text (h1 # l1)) = parseCSVStream (csv_text (h2 # l2)))"
proof (intro conjI ballI impI)
  fix f assume "f \<in> set (parseCSVLine line)"
  then show "trim f = f" by (rule parseCSVLine_trimmed)
next
  fix row h assume r: "row \<in> set (parseCSVStream csv)" and h: "h \<in> dom row"
  from r obtain hs vals where "row = make_row (parseCSVLine hs) vals"
    by (auto simp: parseCSVStream_def split: list.splits)
  with h have "h \<in> set (parseCSVLine hs)" by (simp add: make_row_dom)
  then show "trim h = h" by (rule parseCSVLine_trimmed)
next
  fix row v assume r: "row \<in> set (parseCSVStream csv)" and v: "v \<in> ran row"
  from r obtain hs l where "row = make_row hs (parseCSVLine l)"
    by (auto simp: parseCSVStream_def split: list.splits)
  with v obtain j where "v = sanitizeValue (value_at (parseCSVLine l) j)"
    using make_row_ran by blast
  then show "trim v = v" by (simp add: trim_sanitizeValue value_at_trimmed)
next
  assume "writable_line cells"
  then show "parseCSVLine (csv_line cells) = map trimmed_text cells"
    by (rule parseCSVLine_cells)
next
  assume "(\<forall>c\<in>set a. is_space c) \<and> (\<forall>c\<in>set b. is_space c)"
  then show "parseCSVLine (a @ line2 @ b) = parseCSVLine line2"
    by (intro parseCSVLine_spaces) blast+
next
  assume "writable_line header \<and> list_all writable_line lines"
  then show "parseCSVStream (csv_text (header # lines)) =
      map (\<lambda>cells. make_row (map trimmed_text header) (map trimmed_text cells))
        (filter (\<lambda>cells. \<not> blank_line cells) lines)"
    by (intro parseCSVStream_written) blast+
next
  assume "distinct hs \<and> j < length hs \<and> hs ! j \<noteq> ''__proto__''"
  then show "make_row hs vals (hs ! j) = Some (sanitizeValue (value_at vals j))"
    by (intro make_row_lookup) blast+
next
  assume "writable_line h1 \<and> writable_line h2 \<and> list_all2 same_cell h1 h2
        \<and> list_all writable_line l1 \<and> list_all writable_line l2
        \<and> list_all2 (list_all2 same_cell) l1 l2"
  then show "parseCSVStream (csv_text (h1 # l1)) = parseCSVStream (csv_text (h2 # l2))"
    by (intro parseCSVStream_same) blast+
qed

theorem parseCSV_fields_trimmed_witness:
  "''x'' \<in> set (parseCSVLine '' x , y '') \<and> trim ''x'' = ''x''
   \<and> csv_text (spaced_header # spaced_lines) =
        '' name ,'' @ [dquote] @ '' value '' @ [dquote] @ ''\<newline> a ,'' @ [dquote] @ '' 1 '' @ [dquote]
          @ ''\<newline>  \<newline>'' @ [dquote] @ '' x, y '' @ [dquote] @ '',-2 ''
   \<and> hd (parseCSVStream (csv_text (spaced_header # spaced_lines))) ''name'' = Some ''a''
   \<and> trim ''name'' = ''name'' \<and> trim ''a'' = ''a''
   \<and> parseCSVLine (csv_line spaced_header) = [''name'', ''value'']
   \<and> parseCSVLine (''  '' @ ''a , b,c '' @ '' '') = parseCSVLine ''a , b,c ''
   \<and> length (parseCSVStream (csv_text (spaced_header # spaced_lines))) = 2
   \<and> (parseCSVStream (csv_text (spaced_header # spaced_lines)) ! 1) ''name'' = Some ''x, y''
   \<and> (parseCSVStream (csv_text (spaced_header # spaced_lines)) ! 1) ''value'' = Some ''-2''
   \<and> make_row [''name'', ''value''] ['' a'', ''=1''] ''value'' = Some (CHR 0x27 # ''=1'')
   \<and> parseCSVStream (csv_text (spaced_header # spaced_lines)) =
       parseCSVStream (csv_text (bare_header # bare_lines))"
proof -
  let ?csv = "csv_text (spaced_header # spaced_lines)"
  note t = parseCSV_fields_trimmed [where line = "'' x , y ''" and csv = ?csv
      and cells = spaced_header and a = "''  ''" and b = "'' ''" and ?line2.0 = "''a , b,c ''"
      and header = spaced_header and lines = spaced_lines
      and hs = "[''name'', ''value'']" and j = 1 and vals = "['' a'', ''=1'']"
      and ?h1.0 = spaced_header and ?l1.0 = spaced_lines
      and ?h2.0 = bare_header and ?l2.0 = bare_lines]
  have 1: "''x'' \<in> set (parseCSVLine '' x , y '')"
    by code_simp
  have c1: "?csv =
      '' name ,'' @ [dquote] @ '' value '' @ [dquote] @ ''\<newline> a ,'' @ [dquote] @ '' 1 '' @ [dquote]
        @ ''\<newline>  \<newline>'' @ [dquote] @ '' x, y '' @ [dquote] @ '',-2 ''"
    by code_simp
  have wh: "writable_line spaced_header" by code_simp
  have wl: "list_all writable_line spaced_lines" by code_simp
  have wh2: "writable_line bare_header" by code_simp
  have wl2: "list_all writable_line bare_lines" by code_simp
  have sh: "list_all2 same_cell spaced_header bare_header" by code_simp
  have sl: "list_all2 (list_all2 same_cell) spaced_lines bare_lines" by code_simp
  have sp: "(\<forall>c\<in>set ''  ''. is_space c) \<and> (\<forall>c\<in>set '' ''. is_space c)"
    by (simp add: is_space_def)
  have d: "distinct [''name'', ''value''] \<and> (1::nat) < length [''name'', ''value'']
      \<and> [''name'', ''value''] ! 1 \<noteq> ''__proto__''"
    by simp
  from t wh wl have s: "parseCSVStream ?csv =
      map (\<lambda>cells. make_row (map trimmed_text spaced_header) (map trimmed_text cells))
        (filter (\<lambda>cells. \<not> blank_line cells) spaced_lines)"
    by blast
  have e1: "length (map (\<lambda>cells. make_row (map trimmed_text spaced_header) (map trimmed_text cells))
        (filter (\<lambda>cells. \<not> blank_line cells) spaced_lines)) = 2"
    by code_simp
  have e2: "hd (map (\<lambda>cells. make_row (map trimmed_text spaced_header) (map trimmed_text cells))
        (filter (\<lambda>cells. \<not> blank_line cells) spaced_lines)) ''name'' = Some ''a''"
    by code_simp
  have e3: "((map (\<lambda>cells. make_row (map trimmed_text spaced_header) (map trimmed_text cells))
        (filter (\<lambda>cells. \<not> blank_line cells) spaced_lines)) ! 1) ''name'' = Some ''x, y''"
    by code_simp
  have e4: "((map (\<lambda>cells. make_row (map trimmed_text spaced_header) (map trimmed_text cells))
        (filter (\<lambda>cells. \<not> blank_line cells) spaced_lines)) ! 1) ''value'' = Some ''-2''"
    by code_simp
  have 2: "length (parseCSVStream ?csv) = 2" "hd (parseCSVStream ?csv) ''name'' = Some ''a''"
    "(parseCSVStream ?csv ! 1) ''name'' = Some ''x, y''"
    "(parseCSVStream ?csv ! 1) ''value'' = Some ''-2''"
    using e1 e2 e3 e4 by (simp_all only: s)
  from 2(1) have ne: "parseCSVStream ?csv \<noteq> []" by auto
  then have r: "hd (parseCSVStream ?csv) \<in> set (parseCSVStream ?csv)" by simp
  from 2(2) have "''name'' \<in> dom (hd (parseCSVStream ?csv))" "''a'' \<in> ran (hd (parseCSVStream ?csv))"
    by (auto intro: ranI)
  with r t have 4: "trim ''name'' = ''name''" "trim ''a'' = ''a''"
    by blast+
  from t wh have "parseCSVLine (csv_line spaced_header) = map trimmed_text spaced_header"
    by blast
  moreover have "map trimmed_text spaced_header = [''name'', ''value'']" by code_simp
  ultimately have 5: "parseCSVLine (csv_line spaced_header) = [''name'', ''value'']" by simp
  from t sp have 6: "parseCSVLine (''  '' @ ''a , b,c '' @ '' '') = parseCSVLine ''a , b,c ''"
    by blast
  from t d have "make_row [''name'', ''value''] ['' a'', ''=1''] ([''name'', ''value''] ! 1) =
      Some (sanitizeValue (value_at ['' a'', ''=1''] 1))"
    by blast
  moreover have "sanitizeValue (value_at ['' a'', ''=1''] 1) = CHR 0x27 # ''=1''" by code_simp
  ultimately have 7: "make_row [''name'', ''value''] ['' a'', ''=1''] ''value'' = Some (CHR 0x27 # ''=1'')"
    by simp
  from t wh wh2 sh wl wl2 sl
  have 8: "parseCSVStream ?csv = parseCSVStream (csv_text (bare_header # bare_lines))"
    by blast
  from 1 t have 9: "trim ''x'' = ''x''" by blast
  show ?thesis
    using 1 9 c1 2 4 5 6 7 8 by (simp only: simp_thms)
qed

section \<open>Properties of aggregateCashflow\<close>






section \<open>Properties of the polling loop\<close>

declare poll.simps [simp del]

lemma spec_delay_step: "min (spec_delay k * 3 / 2) 30000 = spec_delay (Suc k)"
  by (simp add: spec_delay_def min_def)

lemma spec_delay_0: "spec_delay 0 = 5000"
  by (simp add: spec_delay_def)

lemma http_404_raw:
  "http_404 n \<Longrightarrow> fetchMercadoPagoRaw n = Some (Inl (MercadoPagoApiError 404 None))"
  by (cases n) (simp_all add: http_404_def fetchMercadoPagoRaw_def fetch_def ok_def)

lemma poll_not_ready_step:
  assumes "k < maxAttempts" "http_404 (net k)"
  shows "poll ops net k (spec_delay k) waited =
         poll ops net (Suc k) (spec_delay (Suc k)) (waited @ [spec_delay k])"
  using assms
  by (subst poll.simps) (simp add: http_404_raw not_ready_def spec_delay_step)

lemma poll_not_ready:
  assumes "n \<le> maxAttempts" "k \<le> n" "\<forall>j. k \<le> j \<and> j < n \<longrightarrow> http_404 (net j)"
  shows "poll ops net k (spec_delay k) waited =
         poll ops net n (spec_delay n) (waited @ map spec_delay [k..<n])"
  using assms
proof (induction "n - k" arbitrary: k waited)
  case 0
  then show ?case by simp
next
  case (Suc d)
  then have kn: "k < n" by simp
  with Suc.prems have "k < maxAttempts" "http_404 (net k)" by auto
  then have "poll ops net k (spec_delay k) waited =
      poll ops net (Suc k) (spec_delay (Suc k)) (waited @ [spec_delay k])"
    by (rule poll_not_ready_step)
  also have "\<dots> = poll ops net n (spec_delay n) ((waited @ [spec_delay k]) @ map spec_delay [Suc k..<n])"
    using Suc.hyps(1) [of "Suc k" "waited @ [spec_delay k]"] Suc.hyps(2) Suc.prems kn by auto
  finally show ?case using kn by (simp add: upt_conv_Cons)
qed

lemma poll_waited_length:
  "length (snd (poll ops net k d waited)) \<le> length waited + (maxAttempts - k)"
proof (induction ops net k d waited rule: poll.induct)
  case (1 ops net attempt delay waited)
  show ?case
  proof (cases "attempt < maxAttempts")
    case False
    then show ?thesis by (subst poll.simps) simp
  next
    case True
    show ?thesis
    proof (cases "fetchMercadoPagoRaw (net attempt)")
      case None
      then show ?thesis using True by (subst poll.simps) simp
    next
      case (Some r)
      show ?thesis
      proof (cases r)
        case (Inr csv)
        then show ?thesis using True Some by (subst poll.simps) simp
      next
        case (Inl err)
        show ?thesis
        proof (cases "not_ready err")
          case False
          then show ?thesis using True Some Inl by (subst poll.simps) simp
        next
          case nr: True
          have "length (snd (poll ops net (attempt + 1) (min (delay * (3 / 2)) 30000) (waited @ [delay])))
              \<le> length (waited @ [delay]) + (maxAttempts - (attempt + 1))"
            using "1.IH" [OF True Some Inl nr] .
          then show ?thesis using True Some Inl nr by (subst poll.simps) simp
        qed
      qed
    qed
  qed
qed

lemma spec_delay_values:
  "map spec_delay [0..<12] =
   [5000, 7500, 11250, 16875, 50625 / 2, 30000, 30000, 30000, 30000, 30000, 30000, 30000]"
  by (simp add: spec_delay_def upt_rec)

lemma poll_exhausted: "poll ops net maxAttempts d waited = (Exhausted, waited)"
  by (subst poll.simps) simp

lemma poll_thrown:
  assumes "n < maxAttempts" "fetchMercadoPagoRaw (net n) = Some (Inl err)" "\<not> not_ready err"
  shows "poll ops net n d waited = (Thrown err, waited @ [d])"
  using assms by (subst poll.simps) simp

text \<open>
  C6. With valid dates and a generated report, the tool waits 5000 ms before the first
  request and multiplies the delay by 1.5 after every 404, up to 30000 ms. After twelve
  answers 404 it returns the timeout status with the report id, as a result and not as an
  exception. An error that is not "not ready" at attempt \<open>n\<close> ends the loop there, after
  \<open>n + 1\<close> requests. In every run at most twelve delays are waited.
\<close>

theorem execute_polling_policy:
  assumes "DATE_REGEX start_d" "DATE_REGEX end_d"
  shows "((\<forall>k<12. http_404 (net k)) \<longrightarrow>
            execute ops start_d end_d (Some (Inr report_id)) net =
              (Some (Inr (TimeoutStatus report_id)),
               [5000, 7500, 11250, 16875, 50625 / 2,
                30000, 30000, 30000, 30000, 30000, 30000, 30000]))
         \<and> (n < 12 \<and> (\<forall>k<n. http_404 (net2 k))
              \<and> fetchMercadoPagoRaw (net2 n) = Some (Inl err) \<and> \<not> not_ready err \<longrightarrow>
            execute ops start_d end_d (Some (Inr report_id)) net2 =
              (Some (catch_api_error err), map spec_delay [0..<Suc n]))
         \<and> length (snd (execute ops start_d end_d generated net)) \<le> 12"
proof (intro conjI impI)
  assume a: "\<forall>k<12. http_404 (net k)"
  have "poll ops net 0 (spec_delay 0) [] =
      poll ops net maxAttempts (spec_delay maxAttempts) ([] @ map spec_delay [0..<maxAttempts])"
    using a by (intro poll_not_ready) (simp_all add: maxAttempts_def)
  then have "poll ops net 0 5000 [] = (Exhausted, map spec_delay [0..<12])"
    by (simp add: poll_exhausted spec_delay_0) (simp add: maxAttempts_def)
  then show "execute ops start_d end_d (Some (Inr report_id)) net =
      (Some (Inr (TimeoutStatus report_id)),
       [5000, 7500, 11250, 16875, 50625 / 2,
        30000, 30000, 30000, 30000, 30000, 30000, 30000])"
    using assms by (simp add: execute_def spec_delay_values)
next
  assume a: "n < 12 \<and> (\<forall>k<n. http_404 (net2 k))
      \<and> fetchMercadoPagoRaw (net2 n) = Some (Inl err) \<and> \<not> not_ready err"
  then have n: "n < maxAttempts" by (simp add: maxAttempts_def)
  have "poll ops net2 0 (spec_delay 0) [] =
      poll ops net2 n (spec_delay n) ([] @ map spec_delay [0..<n])"
    using a n by (intro poll_not_ready) simp_all
  also have "\<dots> = (Thrown err, map spec_delay [0..<n] @ [spec_delay n])"
    using a n by (simp add: poll_thrown)
  finally have "poll ops net2 0 5000 [] = (Thrown err, map spec_delay [0..<Suc n])"
    by (simp add: spec_delay_0)
  then show "execute ops start_d end_d (Some (Inr report_id)) net2 =
      (Some (catch_api_error err), map spec_delay [0..<Suc n])"
    using assms by (simp add: execute_def)
next
  have "length (snd (poll ops net 0 5000 [])) \<le> 12"
    using poll_waited_length [of ops net 0 5000 "[]"] by (simp add: maxAttempts_def)
  then show "length (snd (execute ops start_d end_d generated net)) \<le> 12"
    by (auto simp: execute_def split: option.splits sum.splits prod.splits poll_end.splits)
qed

theorem execute_polling_policy_witness:
  "execute exact_ops ''2026-01-01'' ''2026-01-31'' (Some (Inr ''release-report.csv'')) never_ready =
     (Some (Inr (TimeoutStatus ''release-report.csv'')),
      [5000, 7500, 11250, 16875, 50625 / 2, 30000, 30000, 30000, 30000, 30000, 30000, 30000])
   \<and> execute exact_ops ''2026-01-01'' ''2026-01-31'' (Some (Inr ''release-report.csv'')) broken_after_two =
     (Some (Inr (AgentError 500 True)), [5000, 7500, 11250])
   \<and> length (snd (execute exact_ops ''2026-01-01'' ''2026-01-31'' (Some (Inr ''release-report.csv''))
        never_ready)) \<le> 12"
proof -
  have d: "DATE_REGEX ''2026-01-01''" "DATE_REGEX ''2026-01-31''"
    by (simp_all add: DATE_REGEX_def is_digit_def)
  have 1: "\<forall>k<12. http_404 (never_ready k)"
    by (simp add: http_404_def never_ready_def)
  have 2: "(2::nat) < 12 \<and> (\<forall>k<2. http_404 (broken_after_two k))
      \<and> fetchMercadoPagoRaw (broken_after_two 2) = Some (Inl (MercadoPagoApiError 500 None))
      \<and> \<not> not_ready (MercadoPagoApiError 500 None)"
    by (simp add: http_404_def broken_after_two_def fetchMercadoPagoRaw_def fetch_def ok_def
        not_ready_def)
  have 3: "catch_api_error (MercadoPagoApiError 500 None)
      = (Inr (AgentError 500 True) :: js_error + jsnum tool_result)"
    by (simp add: catch_api_error_def)
  have 4: "map spec_delay [0..<Suc 2] = [5000, 7500, 11250]"
    by (simp add: spec_delay_def upt_rec)
  note t = execute_polling_policy [OF d, where ops = exact_ops and net = never_ready and n = 2
      and ?net2.0 = broken_after_two and err = "MercadoPagoApiError 500 None"
      and report_id = "''release-report.csv''"
      and generated = "Some (Inr ''release-report.csv'')"]
  from t 1 have a: "execute exact_ops ''2026-01-01'' ''2026-01-31'' (Some (Inr ''release-report.csv''))
      never_ready =
     (Some (Inr (TimeoutStatus ''release-report.csv'')),
      [5000, 7500, 11250, 16875, 50625 / 2, 30000, 30000, 30000, 30000, 30000, 30000, 30000])"
    by blast
  from t 2 have "execute exact_ops ''2026-01-01'' ''2026-01-31'' (Some (Inr ''release-report.csv''))
      broken_after_two =
     (Some (catch_api_error (MercadoPagoApiError 500 None)), map spec_delay [0..<Suc 2])"
    by blast
  then have b: "execute exact_ops ''2026-01-01'' ''2026-01-31'' (Some (Inr ''release-report.csv''))
      broken_after_two = (Some (Inr (AgentError 500 True)), [5000, 7500, 11250])"
    by (simp only: 3 4)
  from t have c: "length (snd (execute exact_ops ''2026-01-01'' ''2026-01-31''
      (Some (Inr ''release-report.csv'')) never_ready)) \<le> 12"
    by blast
  show ?thesis
    using a b c by blast
qed

section \<open>Properties of the authorization-code flow\<close>

text \<open>
  C7, as stated, on a redirect URL that carries another state and no code: the run fails
  with the missing-code error, not with the state-mismatch error, since the code is
  checked first.
\<close>

theorem run_state_mismatch_without_code_counterexample:
  "searchParams_get [(''state'', ''forged'')] ''state'' \<noteq> Some (state login_attempt)
   \<and> outcome (authorization_code_run login_attempt ''https://app.example/cb?state=forged''
        (Some [(''state'', ''forged'')]) granting_endpoint) = Inl NoAuthorizationCode
   \<and> outcome (authorization_code_run login_attempt ''https://app.example/cb?state=forged''
        (Some [(''state'', ''forged'')]) granting_endpoint) \<noteq> Inl StateMismatch"
  by (simp add: authorization_code_run_def searchParams_get_def login_attempt_def
      run_throws_def)

text \<open>
  C7, amended. For every pasted redirect URL that parses and whose \<open>state\<close> parameter is
  absent or differs from the state of the login attempt, the run fails, the token endpoint
  is not called and no token is stored; when the URL carries a non-empty \<open>code\<close> the
  failure is the state-mismatch error. A redirect URL whose \<open>code\<close> is absent or empty
  fails with the missing-code error, again without a call of the token endpoint.
\<close>

theorem run_state_mismatch:
  assumes "redirectUrl \<noteq> []"
  shows "(searchParams_get params ''state'' \<noteq> Some (state st) \<longrightarrow>
            isl (outcome (authorization_code_run st redirectUrl (Some params) exchange))
            \<and> exchange_calls (authorization_code_run st redirectUrl (Some params) exchange) = []
            \<and> stored (authorization_code_run st redirectUrl (Some params) exchange) = None)
         \<and> (searchParams_get params ''state'' \<noteq> Some (state st)
              \<and> searchParams_get params ''code'' = Some (c # cs) \<longrightarrow>
            outcome (authorization_code_run st redirectUrl (Some params) exchange)
              = Inl StateMismatch)
         \<and> (searchParams_get params2 ''code'' = None \<or> searchParams_get params2 ''code'' = Some [] \<longrightarrow>
            outcome (authorization_code_run st redirectUrl (Some params2) exchange)
              = Inl NoAuthorizationCode
            \<and> exchange_calls (authorization_code_run st redirectUrl (Some params2) exchange) = [])"
  using assms
  by (auto simp: authorization_code_run_def run_throws_def Let_def split: option.splits)

theorem run_state_mismatch_witness:
  "outcome (authorization_code_run login_attempt ''https://app.example/cb?code=abc&state=forged''
        (Some [(''code'', ''abc''), (''state'', ''forged'')]) granting_endpoint) = Inl StateMismatch
   \<and> exchange_calls (authorization_code_run login_attempt
        ''https://app.example/cb?code=abc&state=forged''
        (Some [(''code'', ''abc''), (''state'', ''forged'')]) granting_endpoint) = []
   \<and> stored (authorization_code_run login_attempt
        ''https://app.example/cb?code=abc&state=forged''
        (Some [(''code'', ''abc''), (''state'', ''forged'')]) granting_endpoint) = None
   \<and> outcome (authorization_code_run login_attempt
        ''https://app.example/cb?code=abc&state=forged''
        (Some [(''state'', ''5f2c-issued'')]) granting_endpoint) = Inl NoAuthorizationCode"
proof -
  let ?url = "''https://app.example/cb?code=abc&state=forged''"
  let ?params = "[(''code'', ''abc''), (''state'', ''forged'')]"
  have u: "?url \<noteq> []" by simp
  have 1: "searchParams_get ?params ''state'' \<noteq> Some (state login_attempt)"
    by (simp add: searchParams_get_def login_attempt_def)
  have 2: "searchParams_get ?params ''code'' = Some (CHR ''a'' # ''bc'')"
    by (simp add: searchParams_get_def)
  have 3: "searchParams_get [(''state'', ''5f2c-issued'')] ''code'' = None"
    by (simp add: searchParams_get_def)
  show ?thesis
    using run_state_mismatch [OF u, where params = ?params and st = login_attempt
        and c = "CHR ''a''" and cs = "''bc''" and ?params2.0 = "[(''state'', ''5f2c-issued'')]"
        and exchange = granting_endpoint] 1 2 3
    by blast
qed

section \<open>Properties of the token managers\<close>










text \<open>
  C8. When the cached token expires later than the refresh buffer from now, \<open>getToken\<close>
  returns its access value within the call; nothing is sent to the token endpoint, and the
  token record, the pending-refresh handle and the waiting callers are left as they were.
\<close>

theorem getToken_cached:
  "(tokenState m = Some t \<and> now < expires t - BTG_REFRESH_BUFFER_MS \<longrightarrow>
      answers (btg_getToken caller now env m) = answers m @ [(caller, Inr (access t))]
      \<and> sent (btg_getToken caller now env m) = sent m
      \<and> tokenState (btg_getToken caller now env m) = tokenState m
      \<and> refreshPromise (btg_getToken caller now env m) = refreshPromise m
      \<and> awaiting (btg_getToken caller now env m) = awaiting m)
   \<and> (tokenState m2 = Some t2 \<and> now < expires t2 - ML_REFRESH_BUFFER_MS \<longrightarrow>
      answers (ml_getToken caller now m2) = answers m2 @ [(caller, Inr (access t2))]
      \<and> sent (ml_getToken caller now m2) = sent m2
      \<and> tokenState (ml_getToken caller now m2) = tokenState m2
      \<and> refreshPromise (ml_getToken caller now m2) = refreshPromise m2
      \<and> awaiting (ml_getToken caller now m2) = awaiting m2)"
  by (simp add: btg_getToken_def ml_getToken_def returns_def)

theorem getToken_cached_witness:
  "answers (btg_getToken 1 1000 (Some ''client'') btg_fresh)
     = [(1, Inr ''A1'')]
   \<and> sent (btg_getToken 1 1000 (Some ''client'') btg_fresh) = []
   \<and> refreshPromise (btg_getToken 1 1000 (Some ''client'') btg_fresh)
     = None
   \<and> answers (ml_getToken 1 1000 ml_fresh) = [(1, Inr ''A1'')]
   \<and> sent (ml_getToken 1 1000 ml_fresh) = []
   \<and> refreshPromise (ml_getToken 1 1000 ml_fresh)
     = None"
proof -
  have 1: "tokenState btg_fresh
        = Some fresh_btg_token
      \<and> 1000 < expires fresh_btg_token - BTG_REFRESH_BUFFER_MS"
    by (simp add: btg_fresh_def at_rest_def fresh_btg_token_def BTG_REFRESH_BUFFER_MS_def)
  have 2: "tokenState ml_fresh
        = Some fresh_ml_token
      \<and> 1000 < expires fresh_ml_token - ML_REFRESH_BUFFER_MS"
    by (simp add: ml_fresh_def at_rest_def fresh_ml_token_def ML_REFRESH_BUFFER_MS_def)
  have 3: "access fresh_btg_token = ''A1''" "access fresh_ml_token = ''A1''"
    by (simp_all add: fresh_btg_token_def fresh_ml_token_def)
  have 4: "answers btg_fresh = []"
    "sent btg_fresh = []"
    "refreshPromise btg_fresh = None"
    "answers ml_fresh = []"
    "sent ml_fresh = []"
    "refreshPromise ml_fresh = None"
    by (simp_all add: btg_fresh_def ml_fresh_def at_rest_def)
  show ?thesis
    using getToken_cached [where m = btg_fresh
        and t = fresh_btg_token and now = 1000 and caller = 1 and env = "Some ''client''"
        and ?m2.0 = ml_fresh
        and ?t2.0 = fresh_ml_token] 1 2
    by (simp add: 3 4)
qed




text \<open>
  C3, as stated, on the Mercado Livre manager: after a failed refresh the caller gets the
  error, and the token record is still the old one; the next call sends the old refresh
  token again.
\<close>

theorem ml_refresh_failure_keeps_token_counterexample:
  "answers (ml_refresh_settles (Inl ()) (ml_getToken 1 1000 ml_stale))
     = [(1, Inl (RefreshThrew ()))]
   \<and> tokenState (ml_refresh_settles (Inl ()) (ml_getToken 1 1000 ml_stale)) \<noteq> None
   \<and> tokenState (ml_refresh_settles (Inl ()) (ml_getToken 1 1000 ml_stale))
     = Some stale_ml_token
   \<and> sent (ml_getToken 2 2000 (ml_refresh_settles (Inl ()) (ml_getToken 1 1000 ml_stale)))
     = [''R0'', ''R0'']"
  by (simp add: ml_getToken_def ml_refresh_settles_def return_refreshPromise_def ml_stale_def
      at_rest_def stale_ml_token_def ML_REFRESH_BUFFER_MS_def)

text \<open>
  C3, amended. Take a manager whose cached token is past its refresh buffer, with no
  refresh pending. If the refresh that a call of \<open>getToken\<close> starts fails, the caller gets
  that failure and the pending handle is cleared. In the BTG extension (token with a
  refresh value, client id configured) the token record is cleared as well, so the next
  call reports not-authenticated and sends nothing. In the Mercado Livre extension the
  token record is kept.
\<close>

theorem refresh_failure_propagates:
  "(tokenState m = Some t \<and> refresh t \<noteq> [] \<and> getClientId env \<noteq> None
      \<and> refreshPromise m = None \<and> awaiting m = []
      \<and> \<not> now < expires t - BTG_REFRESH_BUFFER_MS \<longrightarrow>
      answers (btg_refresh_settles (Inl err) (btg_getToken caller now env m))
        = answers m @ [(caller, Inl (RefreshThrew err))]
      \<and> tokenState (btg_refresh_settles (Inl err) (btg_getToken caller now env m)) = None
      \<and> refreshPromise (btg_refresh_settles (Inl err) (btg_getToken caller now env m)) = None
      \<and> answers (btg_getToken caller2 now2 env2
           (btg_refresh_settles (Inl err) (btg_getToken caller now env m)))
        = answers m @ [(caller, Inl (RefreshThrew err)), (caller2, Inl NotAuthenticated)]
      \<and> sent (btg_getToken caller2 now2 env2
           (btg_refresh_settles (Inl err) (btg_getToken caller now env m)))
        = sent m @ [refresh t])
   \<and> (tokenState m2 = Some t2 \<and> refreshPromise m2 = None \<and> awaiting m2 = []
      \<and> \<not> now < expires t2 - ML_REFRESH_BUFFER_MS \<longrightarrow>
      answers (ml_refresh_settles (Inl err) (ml_getToken caller now m2))
        = answers m2 @ [(caller, Inl (RefreshThrew err))]
      \<and> refreshPromise (ml_refresh_settles (Inl err) (ml_getToken caller now m2)) = None
      \<and> tokenState (ml_refresh_settles (Inl err) (ml_getToken caller now m2)) = Some t2)"
proof (intro conjI impI)
  assume a: "tokenState m = Some t \<and> refresh t \<noteq> [] \<and> getClientId env \<noteq> None
      \<and> refreshPromise m = None \<and> awaiting m = []
      \<and> \<not> now < expires t - BTG_REFRESH_BUFFER_MS"
  then obtain clientId where "getClientId env = Some clientId" by auto
  with a have c: "btg_getToken caller now env m =
      m\<lparr> sent := sent m @ [refresh t], refreshPromise := Some Pending, awaiting := [caller] \<rparr>"
    by (simp add: btg_getToken_def return_refreshPromise_def)
  have s: "btg_refresh_settles (Inl err) (btg_getToken caller now env m) =
      m\<lparr> sent := sent m @ [refresh t], tokenState := None, refreshPromise := None,
         awaiting := [], answers := answers m @ [(caller, Inl (RefreshThrew err))] \<rparr>"
    by (simp add: c btg_refresh_settles_def)
  show "answers (btg_refresh_settles (Inl err) (btg_getToken caller now env m))
        = answers m @ [(caller, Inl (RefreshThrew err))]"
    "tokenState (btg_refresh_settles (Inl err) (btg_getToken caller now env m)) = None"
    "refreshPromise (btg_refresh_settles (Inl err) (btg_getToken caller now env m)) = None"
    by (simp_all add: s)
  show "answers (btg_getToken caller2 now2 env2
           (btg_refresh_settles (Inl err) (btg_getToken caller now env m)))
        = answers m @ [(caller, Inl (RefreshThrew err)), (caller2, Inl NotAuthenticated)]"
    "sent (btg_getToken caller2 now2 env2
           (btg_refresh_settles (Inl err) (btg_getToken caller now env m)))
        = sent m @ [refresh t]"
    unfolding s by (simp_all add: btg_getToken_def returns_def)
next
  assume a: "tokenState m2 = Some t2 \<and> refreshPromise m2 = None \<and> awaiting m2 = []
      \<and> \<not> now < expires t2 - ML_REFRESH_BUFFER_MS"
  then have c: "ml_getToken caller now m2 =
      m2\<lparr> sent := sent m2 @ [refresh t2], refreshPromise := Some Pending,
         awaiting := [caller] \<rparr>"
    by (simp add: ml_getToken_def return_refreshPromise_def)
  show "answers (ml_refresh_settles (Inl err) (ml_getToken caller now m2))
        = answers m2 @ [(caller, Inl (RefreshThrew err))]"
    "refreshPromise (ml_refresh_settles (Inl err) (ml_getToken caller now m2)) = None"
    "tokenState (ml_refresh_settles (Inl err) (ml_getToken caller now m2)) = Some t2"
    using a by (simp_all add: c ml_refresh_settles_def)
qed

theorem refresh_failure_propagates_witness:
  "answers (btg_refresh_settles (Inl ()) (btg_getToken 1 1000 (Some ''client'') btg_stale))
     = [(1, Inl (RefreshThrew ()))]
   \<and> tokenState (btg_refresh_settles (Inl ()) (btg_getToken 1 1000 (Some ''client'') btg_stale))
     = None
   \<and> answers (btg_getToken 2 2000 (Some ''client'')
        (btg_refresh_settles (Inl ()) (btg_getToken 1 1000 (Some ''client'') btg_stale)))
     = [(1, Inl (RefreshThrew ())), (2, Inl NotAuthenticated)]
   \<and> sent (btg_getToken 2 2000 (Some ''client'')
        (btg_refresh_settles (Inl ()) (btg_getToken 1 1000 (Some ''client'') btg_stale)))
     = [''R0'']
   \<and> answers (ml_refresh_settles (Inl ()) (ml_getToken 1 1000 ml_stale))
     = [(1, Inl (RefreshThrew ()))]
   \<and> refreshPromise (ml_refresh_settles (Inl ()) (ml_getToken 1 1000 ml_stale)) = None
   \<and> tokenState (ml_refresh_settles (Inl ()) (ml_getToken 1 1000 ml_stale))
     = Some stale_ml_token"
proof -
  have 1: "tokenState btg_stale = Some stale_btg_token \<and> refresh stale_btg_token \<noteq> []
      \<and> getClientId (Some ''client'') \<noteq> None
      \<and> refreshPromise btg_stale = None \<and> awaiting btg_stale = []
      \<and> \<not> 1000 < expires stale_btg_token - BTG_REFRESH_BUFFER_MS"
    by (simp add: btg_stale_def at_rest_def stale_btg_token_def getClientId_def
        BTG_REFRESH_BUFFER_MS_def)
  have 2: "tokenState ml_stale = Some stale_ml_token
      \<and> refreshPromise ml_stale = None \<and> awaiting ml_stale = []
      \<and> \<not> 1000 < expires stale_ml_token - ML_REFRESH_BUFFER_MS"
    by (simp add: ml_stale_def at_rest_def stale_ml_token_def ML_REFRESH_BUFFER_MS_def)
  have 3: "sent btg_stale = []" "answers btg_stale = []" "answers ml_stale = []"
    "refresh stale_btg_token = ''R0''"
    by (simp_all add: btg_stale_def ml_stale_def at_rest_def stale_btg_token_def)
  show ?thesis
    using refresh_failure_propagates [where m = btg_stale and t = stale_btg_token
        and env = "Some ''client''" and now = 1000 and caller = 1 and err = "()"
        and ?caller2.0 = 2 and ?now2.0 = 2000 and ?env2.0 = "Some ''client''"
        and ?m2.0 = ml_stale and ?t2.0 = stale_ml_token] 1 2
    by (simp add: 3)
qed

section \<open>Properties of the fetch functions\<close>




end
